theory Spec2Isabelle
  imports Complex_Main
begin

section \<open>Python values and exceptions\<close>

text \<open>
  The exceptions the three scripts can meet. \<open>DatabaseError\<close> stands for
  \<open>psycopg2.Error\<close> and its subclasses, the only class the weather loader's handler
  names; every other constructor is an exception that handler does not catch.
\<close>

datatype py_error =
    KeyError | IndexError | TypeError | ValueError | JSONDecodeError
  | RequestException | ConnectionError | DatabaseError

text \<open>How a statement sequence ends: it falls through, or an exception leaves it.\<close>

datatype outcome = Normal | Raised py_error

text \<open>
  A Python float as far as the loader looks at it: the only operation applied to a
  coordinate is the truth test \<open>not lat\<close>, which is true for zero (of either sign) and
  false for every other float, the non-finite ones included.
\<close>

datatype pyfloat = Finite real | PosInf | NegInf | NaN

fun float_truthy :: "pyfloat \<Rightarrow> bool" where
  "float_truthy (Finite x) = (x \<noteq> 0)"
| "float_truthy PosInf = True"
| "float_truthy NegInf = True"
| "float_truthy NaN = True"

text \<open>Truth value of \<open>lat\<close> in \<open>if not lat or not lon\<close>: \<open>None\<close> is false.\<close>

definition truthy :: "pyfloat option \<Rightarrow> bool" where
  "truthy v = (case v of None \<Rightarrow> False | Some x \<Rightarrow> float_truthy x)"

section \<open>Strings\<close>

text \<open>Characters for which \<open>str.isspace\<close> holds, among the code points below 256.\<close>

definition whitespace :: "char list" where
  "whitespace = [CHR 0x09, CHR 0x0A, CHR 0x0B, CHR 0x0C, CHR 0x0D, CHR 0x1C, CHR 0x1D,
     CHR 0x1E, CHR 0x1F, CHR '' '', CHR 0x85, CHR 0xA0]"

definition is_space :: "char \<Rightarrow> bool" where
  "is_space c \<longleftrightarrow> c \<in> set whitespace"

text \<open>
  \<open>s.split()\<close> with no argument: the maximal runs of non-whitespace, in order.
  \<open>split_ws cur s\<close> reads \<open>s\<close> with \<open>cur\<close> the word read so far.
\<close>

fun split_ws :: "string \<Rightarrow> string \<Rightarrow> string list" where
  "split_ws cur [] = (if cur = [] then [] else [cur])"
| "split_ws cur (c # cs) =
     (if is_space c then (if cur = [] then split_ws [] cs else cur # split_ws [] cs)
      else split_ws (cur @ [c]) cs)"

definition py_split :: "string \<Rightarrow> string list" where
  "py_split s = split_ws [] s"

text \<open>\<open>s.split()[0]\<close>: the first word, IndexError when there is none.\<close>

definition first_word :: "string \<Rightarrow> py_error + string" where
  "first_word s = (case py_split s of [] \<Rightarrow> Inl IndexError | w # _ \<Rightarrow> Inr w)"

text \<open>\<open>s.split(sep)\<close> for a one-character separator: never empty, keeps empty fields.\<close>

fun split_on :: "char \<Rightarrow> string \<Rightarrow> string list" where
  "split_on sep [] = [[]]"
| "split_on sep (c # cs) =
     (if c = sep then [] # split_on sep cs
      else (case split_on sep cs of [] \<Rightarrow> [[c]] | w # ws \<Rightarrow> (c # w) # ws))"

definition strip :: "string \<Rightarrow> string" where
  "strip s = rev (dropWhile is_space (rev (dropWhile is_space s)))"

text \<open>\<open>str(n)\<close> for an integer, as the f-string \<open>f"Weather code {code}"\<close> formats it.\<close>

fun str_nat :: "nat \<Rightarrow> string" where
  "str_nat n =
     (if n < 10 then [''0123456789'' ! n]
      else str_nat (n div 10) @ [''0123456789'' ! (n mod 10)])"

declare str_nat.simps [simp del]

definition str_int :: "int \<Rightarrow> string" where
  "str_int i = (if i < 0 then CHR ''-'' # str_nat (nat (- i)) else str_nat (nat i))"

section \<open>config.py and the tables of etl_weather.py\<close>

definition CITIES :: "string list" where
  "CITIES =
    [''Nairobi,Kenya'', ''Mombasa,Kenya'', ''Kisumu,Kenya'', ''Eldoret,Kenya'',
     ''Nakuru,Kenya'', ''Thika,Kenya'', ''Nyeri,Kenya'', ''Machakos,Kenya'',
     ''Garissa,Kenya'', ''Kakamega,Kenya'',
     ''Lagos,Nigeria'', ''Cairo,Egypt'', ''Cape Town,South Africa'',
     ''Johannesburg,South Africa'', ''Addis Ababa,Ethiopia'', ''Dar es Salaam,Tanzania'',
     ''Accra,Ghana'', ''Kampala,Uganda'', ''Luanda,Angola'', ''Casablanca,Morocco'',
     ''London,UK'', ''Paris,France'', ''Berlin,Germany'', ''Madrid,Spain'', ''Rome,Italy'',
     ''Moscow,Russia'', ''Beijing,China'', ''Tokyo,Japan'', ''Seoul,South Korea'',
     ''Mumbai,India'', ''Dubai,UAE'', ''New York,US'', ''Los Angeles,US'',
     ''Toronto,Canada'', ''Mexico City,Mexico'', ''S'' @ [CHR 0xE3] @ ''o Paulo,Brazil'',
     ''Buenos Aires,Argentina'', ''Sydney,Australia'', ''Melbourne,Australia'',
     ''Singapore,Singapore'', ''Bangkok,Thailand'', ''Istanbul,Turkey'',
     ''Riyadh,Saudi Arabia'', ''Jakarta,Indonesia'']"

definition COUNTRY_MAPPING :: "(string \<times> string) list" where
  "COUNTRY_MAPPING =
    [(''UK'', ''United Kingdom''), (''US'', ''United States''),
     (''UAE'', ''United Arab Emirates''), (''Turkey'', ''Turkiye''),
     (''South Korea'', ''South Korea''), (''Russia'', ''Russia''),
     (''China'', ''China''), (''Brazil'', ''Brazil'')]"

text \<open>
  \<open>raw_country = city.split(",")[-1].strip()\<close> and
  \<open>COUNTRY_MAPPING.get(raw_country, raw_country)\<close>.
\<close>

definition country_of :: "string \<Rightarrow> string" where
  "country_of city =
     (let raw_country = strip (last (split_on CHR '','' city))
      in case map_of COUNTRY_MAPPING raw_country of
           Some country \<Rightarrow> country
         | None \<Rightarrow> raw_country)"

definition descriptions :: "(int \<times> string) list" where
  "descriptions =
    [(0, ''Clear sky''), (1, ''Mainly clear''), (2, ''Partly cloudy''), (3, ''Overcast''),
     (45, ''Fog''), (48, ''Depositing rime fog''),
     (51, ''Light drizzle''), (61, ''Rain''), (71, ''Snow''), (80, ''Rain showers''),
     (95, ''Thunderstorm'')]"

text \<open>\<open>weather_desc = descriptions.get(code, f"Weather code {code}")\<close>\<close>

definition weather_desc :: "int \<Rightarrow> string" where
  "weather_desc code =
     (case map_of descriptions code of
        Some d \<Rightarrow> d
      | None \<Rightarrow> ''Weather code '' @ str_int code)"

text \<open>\<open>weather_main = "Clouds" if 1 <= code <= 3 else weather_desc.split()[0]\<close>\<close>

definition weather_main_of :: "int \<Rightarrow> py_error + string" where
  "weather_main_of code =
     (if 1 \<le> code \<and> code \<le> 3 then Inr ''Clouds'' else first_word (weather_desc code))"

section \<open>The geocoding step\<close>

text \<open>
  What the geocoding service can answer. \<open>requests.get\<close> raises, or returns a response
  with a status code and a body. The body is not JSON (\<open>response.json()\<close> raises), a
  JSON array, or another JSON value, of which only the truth value matters: subscripting
  it with \<open>[0]\<close> and then \<open>["lat"]\<close> raises whatever it is. An array element is an
  object with its \<open>lat\<close> and \<open>lon\<close> entries, or not an object. An entry is absent
  (\<open>data["lat"]\<close> raises KeyError), present and refused by \<open>float\<close>, or a float.
\<close>

datatype geo_field = Absent | NotNumeric | Numeric pyfloat

datatype geo_item = NotAnObject | GeoObject geo_field geo_field

datatype geo_json = InvalidJson | JsonOther bool | JsonArray "geo_item list"

datatype geo_outcome = GeoRaises | GeoResponse int geo_json

datatype log_entry =
    GeocodingWarning string
  | ErrorSkipping string
  | LoadedWeather string string
  | EtlComplete

text \<open>
  The body of the \<open>try\<close> once the status is 200: \<open>Inr None\<close> when \<open>response.json()\<close>
  is falsy and the \<open>if\<close> falls through, \<open>Inr (Some (lat, lon))\<close> at the
  \<open>return\<close>, \<open>Inl e\<close> when an exception is raised.
\<close>

fun parse_geo :: "geo_json \<Rightarrow> py_error + (pyfloat \<times> pyfloat) option" where
  "parse_geo InvalidJson = Inl JSONDecodeError"
| "parse_geo (JsonOther t) = (if t then Inl TypeError else Inr None)"
| "parse_geo (JsonArray []) = Inr None"
| "parse_geo (JsonArray (NotAnObject # _)) = Inl TypeError"
| "parse_geo (JsonArray (GeoObject Absent _ # _)) = Inl KeyError"
| "parse_geo (JsonArray (GeoObject NotNumeric _ # _)) = Inl ValueError"
| "parse_geo (JsonArray (GeoObject (Numeric x) Absent # _)) = Inl KeyError"
| "parse_geo (JsonArray (GeoObject (Numeric x) NotNumeric # _)) = Inl ValueError"
| "parse_geo (JsonArray (GeoObject (Numeric x) (Numeric y) # _)) = Inr (Some (x, y))"

text \<open>
  \<open>fetch_coordinates(city)\<close>: the pair it returns and the warnings it logs. Every
  exception of the \<open>try\<close> is caught by \<open>except Exception\<close>, logged, and followed by
  the final \<open>return None, None\<close>.
\<close>

definition fetch_coordinates ::
  "string \<Rightarrow> geo_outcome \<Rightarrow> (pyfloat option \<times> pyfloat option) \<times> log_entry list" where
  "fetch_coordinates city g =
     (case g of
        GeoRaises \<Rightarrow> ((None, None), [GeocodingWarning city])
      | GeoResponse status body \<Rightarrow>
          if status \<noteq> 200 then ((None, None), [])
          else (case parse_geo body of
                  Inl e \<Rightarrow> ((None, None), [GeocodingWarning city])
                | Inr None \<Rightarrow> ((None, None), [])
                | Inr (Some (x, y)) \<Rightarrow> ((Some x, Some y), [])))"

section \<open>The warehouse\<close>

text \<open>
  Modelled from the spec: the schema of the warehouse is not among the sources. Section 3
  of the specification gives \<open>dim_city\<close> the unique key \<open>city_name\<close> and an identifier
  \<open>city_id\<close>, and gives \<open>fact_weather_snapshot\<close> a reference to a city by id, the seven
  inserted columns and an implicit fetch timestamp, with duplicate inserts for the same
  city and time ignored. The specification does not say how identifiers are issued: the
  model issues them from a sequence, as PostgreSQL does for a serial or identity column.
  The sequence is not transactional: every executed upsert takes its next value, whether
  it inserts a row or updates one, and a rollback gives no value back. The timestamp is
  the database's clock, an input of the model.
\<close>

record city_row =
  city_id :: nat
  city_name :: string
  country_name :: string

record snapshot_row =
  snap_city_id :: nat
  temperature_celsius :: real
  feels_like_celsius :: real
  humidity_percent :: real
  weather_main :: string
  weather_description :: string
  wind_speed_mps :: real
  fetch_date :: nat

record db =
  dim_city :: "city_row list"
  fact_weather_snapshot :: "snapshot_row list"

definition empty_db :: db where
  "empty_db = \<lparr>dim_city = [], fact_weather_snapshot = []\<rparr>"

text \<open>
  Where the sequence stands when a connection is opened: above every identifier of the
  table. Between runs the model keeps the tables only, and takes the least such value.
\<close>

definition sequence_start :: "city_row list \<Rightarrow> nat" where
  "sequence_start rows = Suc (foldr (\<lambda>r m. max (city_id r) m) rows 0)"

text \<open>
  \<open>INSERT INTO dim_city (city_name, country_name) VALUES (%s, %s)
  ON CONFLICT (city_name) DO UPDATE SET country_name = EXCLUDED.country_name
  RETURNING city_id\<close>: the table afterwards and the identifier returned, given the
  value \<open>next_id\<close> the sequence issues for the statement.
\<close>

definition upsert_city ::
  "nat \<Rightarrow> string \<Rightarrow> string \<Rightarrow> city_row list \<Rightarrow> city_row list \<times> nat" where
  "upsert_city next_id city country rows =
     (case find (\<lambda>r. city_name r = city) rows of
        Some r \<Rightarrow>
          (map (\<lambda>r'. if city_name r' = city then r'\<lparr>country_name := country\<rparr> else r') rows,
           city_id r)
      | None \<Rightarrow>
          (rows @ [\<lparr>city_id = next_id, city_name = city, country_name = country\<rparr>],
           next_id))"

text \<open>
  Modelled from the spec: the conflict key of \<open>fact_weather_snapshot\<close> is the city and
  the fetch time (``duplicate inserts for the same city/time are silently ignored'').
\<close>

definition conflict_key :: "snapshot_row \<Rightarrow> nat \<times> nat" where
  "conflict_key sn = (snap_city_id sn, fetch_date sn)"

text \<open>\<open>INSERT INTO fact_weather_snapshot (...) VALUES (...) ON CONFLICT DO NOTHING\<close>\<close>

definition insert_snapshot :: "snapshot_row \<Rightarrow> snapshot_row list \<Rightarrow> snapshot_row list" where
  "insert_snapshot sn rows =
     (if conflict_key sn \<in> set (map conflict_key rows) then rows else rows @ [sn])"

section \<open>The weather loader\<close>

text \<open>
  What the weather service can answer: \<open>requests.get\<close> raises, or returns a status and
  a body; the body is not JSON, a JSON object without \<open>current\<close>, or one whose
  \<open>current\<close> object has each of the five requested entries or lacks it.
\<close>

record current_weather =
  temperature_2m :: "real option"
  apparent_temperature :: "real option"
  relative_humidity_2m :: "real option"
  weather_code :: "int option"
  wind_speed_10m :: "real option"

datatype weather_json = WInvalidJson | WNoCurrent | WCurrent current_weather

datatype weather_outcome = WeatherRaises | WeatherResponse int weather_json

text \<open>
  Everything outside the program that one iteration of the loop meets: the two services'
  answers, whether each database call raises \<open>psycopg2.Error\<close> (the upsert, the
  insert, the commit, and the rollback of the handler, which raises when the connection
  is lost), and the database's clock.
\<close>

record city_events =
  geo :: geo_outcome
  upsert_fails :: bool
  weather :: weather_outcome
  insert_fails :: bool
  commit_fails :: bool
  rollback_fails :: bool
  db_time :: nat

text \<open>
  The connection: the committed tables, the tables as the open transaction sees them,
  what was logged and printed, and the next value of the identifier sequence.
  \<open>conn.commit()\<close> makes the view durable, \<open>conn.rollback()\<close> resets the view to the
  committed tables; neither touches the sequence.
\<close>

record conn =
  committed :: db
  working :: db
  log :: "log_entry list"
  city_id_seq :: nat

text \<open>
  Lines 73 to 92 for a 200 response: the tuple handed to the insert, in the order the
  source evaluates it, or the exception raised on the way.
\<close>

definition weather_row :: "nat \<Rightarrow> nat \<Rightarrow> weather_json \<Rightarrow> py_error + snapshot_row" where
  "weather_row cid now body =
     (case body of
        WInvalidJson \<Rightarrow> Inl JSONDecodeError
      | WNoCurrent \<Rightarrow> Inl KeyError
      | WCurrent data \<Rightarrow>
         (case weather_code data of None \<Rightarrow> Inl KeyError | Some code \<Rightarrow>
         (case weather_main_of code of Inl e \<Rightarrow> Inl e | Inr main \<Rightarrow>
         (case temperature_2m data of None \<Rightarrow> Inl KeyError | Some t \<Rightarrow>
         (case apparent_temperature data of None \<Rightarrow> Inl KeyError | Some f \<Rightarrow>
         (case relative_humidity_2m data of None \<Rightarrow> Inl KeyError | Some h \<Rightarrow>
         (case wind_speed_10m data of None \<Rightarrow> Inl KeyError | Some w \<Rightarrow>
            Inr \<lparr>snap_city_id = cid, temperature_celsius = t, feels_like_celsius = f,
                 humidity_percent = h, weather_main = main,
                 weather_description = weather_desc code, wind_speed_mps = w,
                 fetch_date = now\<rparr>)))))))"

text \<open>
  The handler \<open>except psycopg2.Error\<close> (lines 96 to 99): roll back, log, continue.
  Nothing guards \<open>conn.rollback()\<close>: when it raises, the exception leaves the handler,
  the loop and the function before anything is logged.
\<close>

definition on_db_error :: "string \<Rightarrow> bool \<Rightarrow> conn \<Rightarrow> outcome \<times> conn" where
  "on_db_error city rollback_raises s =
     (if rollback_raises then (Raised DatabaseError, s)
      else (Normal, s\<lparr>working := committed s, log := log s @ [ErrorSkipping city]\<rparr>))"

text \<open>
  One iteration of \<open>for city in CITIES\<close> (lines 52 to 99). \<open>Raised e\<close> is an exception
  the handler does not catch, or one raised inside the handler: it leaves the loop and
  the function.
\<close>

definition per_city :: "string \<Rightarrow> city_events \<Rightarrow> conn \<Rightarrow> outcome \<times> conn" where
  "per_city city ev s =
     (let ((lat, lon), warnings) = fetch_coordinates city (geo ev);
          s0 = s\<lparr>log := log s @ warnings\<rparr>
      in if \<not> truthy lat \<or> \<not> truthy lon then (Normal, s0)
         else
           let country = country_of city
           in if upsert_fails ev then on_db_error city (rollback_fails ev) s0
              else
                let (rows, cid) =
                      upsert_city (city_id_seq s0) city country (dim_city (working s0));
                    s1 = s0\<lparr>working := (working s0)\<lparr>dim_city := rows\<rparr>,
                            city_id_seq := Suc (city_id_seq s0)\<rparr>
                in (case weather ev of
                      WeatherRaises \<Rightarrow> (Raised RequestException, s1)
                    | WeatherResponse status body \<Rightarrow>
                        if status \<noteq> 200 then (Normal, s1)
                        else (case weather_row cid (db_time ev) body of
                                Inl e \<Rightarrow> (Raised e, s1)
                              | Inr sn \<Rightarrow>
                                  if insert_fails ev
                                  then on_db_error city (rollback_fails ev) s1
                                  else
                                    let s2 = s1\<lparr>working := (working s1)
                                          \<lparr>fact_weather_snapshot :=
                                             insert_snapshot sn (fact_weather_snapshot (working s1))\<rparr>\<rparr>
                                    in if commit_fails ev
                                       then on_db_error city (rollback_fails ev) s2
                                       else (Normal, s2\<lparr>committed := working s2,
                                               log := log s2 @ [LoadedWeather city country]\<rparr>))))"

text \<open>The loop, over the cities paired with what each iteration meets.\<close>

fun weather_loop :: "(string \<times> city_events) list \<Rightarrow> conn \<Rightarrow> outcome \<times> conn" where
  "weather_loop [] s = (Normal, s)"
| "weather_loop ((city, ev) # rest) s =
     (case per_city city ev s of
        (Raised e, s') \<Rightarrow> (Raised e, s')
      | (Normal, s') \<Rightarrow> weather_loop rest s')"

text \<open>\<open>conn = psycopg2.connect(**PG_CONFIG)\<close>: a connection with nothing pending.\<close>

definition connect :: "db \<Rightarrow> conn" where
  "connect d =
     \<lparr>committed = d, working = d, log = [], city_id_seq = sequence_start (dim_city d)\<rparr>"

text \<open>
  \<open>fetch_and_load_weather()\<close> on a warehouse: a fresh connection, the loop, then
  \<open>cur.close()\<close> and \<open>conn.close()\<close> with no commit, so that the warehouse keeps the
  committed tables only; the same holds when an exception ends the function and the
  connection is dropped. Opening the connection is taken to succeed. The configured run
  is the one whose cities are \<open>CITIES\<close>.
\<close>

definition fetch_and_load_weather ::
  "(string \<times> city_events) list \<Rightarrow> db \<Rightarrow> outcome \<times> db \<times> log_entry list" where
  "fetch_and_load_weather script d =
     (case weather_loop script (connect d) of
        (Normal, s) \<Rightarrow> (Normal, committed s, log s @ [EtlComplete])
      | (Raised e, s) \<Rightarrow> (Raised e, committed s, log s))"

section \<open>The happiness loader\<close>

text \<open>
  A data row of the CSV: the eight columns the loader renames and keeps. The frame the
  loader builds has the same rows, in file order, with the column \<open>region\<close> set to
  \<open>None\<close>.
\<close>

record csv_row =
  csv_country_name :: string
  csv_ladder_score :: real
  csv_log_gdp_per_capita :: real
  csv_social_support :: real
  csv_healthy_life_expectancy :: real
  csv_freedom_to_make_life_choices :: real
  csv_generosity :: real
  csv_perceptions_of_corruption :: real

record happiness_row =
  hp_country_name :: string
  region :: "string option"
  ladder_score :: real
  gdp_per_capita :: real
  social_support :: real
  healthy_life_expectancy :: real
  freedom_to_make_choices :: real
  generosity :: real
  perceptions_of_corruption :: real

definition frame_row :: "csv_row \<Rightarrow> happiness_row" where
  "frame_row c =
     \<lparr>hp_country_name = csv_country_name c, region = None,
      ladder_score = csv_ladder_score c, gdp_per_capita = csv_log_gdp_per_capita c,
      social_support = csv_social_support c,
      healthy_life_expectancy = csv_healthy_life_expectancy c,
      freedom_to_make_choices = csv_freedom_to_make_life_choices c,
      generosity = csv_generosity c,
      perceptions_of_corruption = csv_perceptions_of_corruption c\<rparr>"

text \<open>
  \<open>INSERT INTO dim_country (...) VALUES (...) ON CONFLICT (country_name) DO UPDATE SET\<close>
  every other column to the excluded row's.
\<close>

definition upsert_country :: "happiness_row \<Rightarrow> happiness_row list \<Rightarrow> happiness_row list" where
  "upsert_country r tbl =
     (if hp_country_name r \<in> set (map hp_country_name tbl)
      then map (\<lambda>x. if hp_country_name x = hp_country_name r then r else x) tbl
      else tbl @ [r])"

text \<open>
  \<open>for _, row in df.iterrows(): cur.execute(insert_query, tuple(row))\<close>, with the number
  of statements executed so far. \<open>fault\<close> is the index of the statement at which the
  database raises, if any; nothing catches it.
\<close>

fun execute_rows ::
  "nat option \<Rightarrow> happiness_row list \<Rightarrow> nat \<Rightarrow> happiness_row list
     \<Rightarrow> outcome \<times> happiness_row list \<times> nat" where
  "execute_rows fault [] n tbl = (Normal, tbl, n)"
| "execute_rows fault (r # rs) n tbl =
     (if fault = Some n then (Raised DatabaseError, tbl, n)
      else execute_rows fault rs (Suc n) (upsert_country r tbl))"

record happiness_run =
  result :: outcome
  dim_country :: "happiness_row list"
  executed :: nat
  commits :: nat
  top5_printed :: "(string \<times> real) list"

text \<open>
  \<open>load_happiness_data()\<close> on the rows of the CSV and the committed table: the
  statements, one \<open>conn.commit()\<close>, and under the heading \<open>Top 5 happiest:\<close> the print of
  \<open>df.head()[['country_name', 'ladder_score']]\<close>, the first five rows of the frame.
\<close>

definition load_happiness_data ::
  "csv_row list \<Rightarrow> nat option \<Rightarrow> happiness_row list \<Rightarrow> happiness_run" where
  "load_happiness_data rows fault tbl =
     (let df = map frame_row rows
      in case execute_rows fault df 0 tbl of
           (Raised e, _, n) \<Rightarrow>
             \<lparr>result = Raised e, dim_country = tbl, executed = n, commits = 0,
              top5_printed = []\<rparr>
         | (Normal, tbl', n) \<Rightarrow>
             \<lparr>result = Normal, dim_country = tbl', executed = n, commits = 1,
              top5_printed = map (\<lambda>r. (hp_country_name r, ladder_score r)) (take 5 df)\<rparr>)"

section \<open>The report generator\<close>

record report_row =
  happiness_score :: real
  report_temperature_celsius :: real
  report_country_name :: string
  report_city_name :: string

datatype query_outcome = QueryFails | QueryRows "report_row list"

datatype artifact = MainVisualization | DistributionPlots | InsightsFile

text \<open>
  \<open>fetch_data\<close>: a \<open>psycopg2.Error\<close> is re-raised as \<open>ConnectionError\<close>; an empty frame
  raises \<open>ValueError\<close>, which the \<open>except psycopg2.Error\<close> clause does not catch.
\<close>

definition fetch_data :: "query_outcome \<Rightarrow> py_error + report_row list" where
  "fetch_data q =
     (case q of
        QueryFails \<Rightarrow> Inl ConnectionError
      | QueryRows df \<Rightarrow> if df = [] then Inl ValueError else Inr df)"

text \<open>
  The statistics and plotting libraries are outside the model: whether each later step
  raises is an input.
\<close>

record render_events =
  statistics_raise :: "py_error option"
  main_visualization_raises :: "py_error option"
  distribution_plots_raise :: "py_error option"
  insights_raise :: "py_error option"

text \<open>
  \<open>generate_report\<close>: how it ends and the files written, in order. Its handler prints
  the error and re-raises it.
\<close>

definition generate_report :: "query_outcome \<Rightarrow> render_events \<Rightarrow> outcome \<times> artifact list" where
  "generate_report q ev =
     (case fetch_data q of
        Inl e \<Rightarrow> (Raised e, [])
      | Inr df \<Rightarrow>
         (case statistics_raise ev of Some e \<Rightarrow> (Raised e, []) | None \<Rightarrow>
         (case main_visualization_raises ev of Some e \<Rightarrow> (Raised e, []) | None \<Rightarrow>
         (case distribution_plots_raise ev of
            Some e \<Rightarrow> (Raised e, [MainVisualization])
          | None \<Rightarrow>
         (case insights_raise ev of
            Some e \<Rightarrow> (Raised e, [MainVisualization, DistributionPlots])
          | None \<Rightarrow> (Normal, [MainVisualization, DistributionPlots, InsightsFile]))))))"

section \<open>Well-formed warehouses\<close>

text \<open>
  The constraints of the schema: city names and identifiers are unique, every snapshot
  references a city row of the same tables, and conflict keys are unique.
\<close>

definition parent_exists :: "db \<Rightarrow> bool" where
  "parent_exists d \<longleftrightarrow>
     (\<forall>sn \<in> set (fact_weather_snapshot d). snap_city_id sn \<in> set (map city_id (dim_city d)))"

definition wf_db :: "db \<Rightarrow> bool" where
  "wf_db d \<longleftrightarrow>
     distinct (map city_name (dim_city d)) \<and> distinct (map city_id (dim_city d)) \<and>
     parent_exists d \<and> distinct (map conflict_key (fact_weather_snapshot d))"

text \<open>The rows of a city, by name, and the snapshots that reference them.\<close>

definition city_rows :: "string \<Rightarrow> db \<Rightarrow> city_row list" where
  "city_rows city d = filter (\<lambda>r. city_name r = city) (dim_city d)"

definition snapshots_of :: "string \<Rightarrow> db \<Rightarrow> snapshot_row list" where
  "snapshots_of city d =
     filter (\<lambda>sn. snap_city_id sn \<in> set (map city_id (city_rows city d)))
       (fact_weather_snapshot d)"

text \<open>
  What an iteration meets when both services answer well and the database works. The
  coordinates \<open>fetch_coordinates\<close> returns do not depend on the city string, which
  only enters the warning; the row \<open>weather_row\<close> builds exists or not whatever the
  identifier and the time are.
\<close>

definition geocoded :: "city_events \<Rightarrow> bool" where
  "geocoded ev \<longleftrightarrow>
     (case fst (fetch_coordinates [] (geo ev)) of
        (lat, lon) \<Rightarrow> truthy lat \<and> truthy lon)"

definition weather_ok :: "city_events \<Rightarrow> bool" where
  "weather_ok ev \<longleftrightarrow>
     (case weather ev of
        WeatherRaises \<Rightarrow> False
      | WeatherResponse status body \<Rightarrow>
          status = 200 \<and> (case weather_row 0 0 body of Inl e \<Rightarrow> False | Inr sn \<Rightarrow> True))"

definition db_ok :: "city_events \<Rightarrow> bool" where
  "db_ok ev \<longleftrightarrow> \<not> upsert_fails ev \<and> \<not> insert_fails ev \<and> \<not> commit_fails ev"

definition loads :: "city_events \<Rightarrow> bool" where
  "loads ev \<longleftrightarrow> geocoded ev \<and> weather_ok ev \<and> db_ok ev"

section \<open>Notions used in the statements\<close>

text \<open>
  The connection after the upsert of an iteration, the identifier the upsert returns,
  and the connection after the insert of a snapshot: the intermediate states \<open>s1\<close>
  and \<open>s2\<close> of \<open>per_city\<close>, named.
\<close>

definition after_upsert :: "string \<Rightarrow> conn \<Rightarrow> conn" where
  "after_upsert city s =
     s\<lparr>working := (working s)
         \<lparr>dim_city :=
            fst (upsert_city (city_id_seq s) city (country_of city) (dim_city (working s)))\<rparr>,
       city_id_seq := Suc (city_id_seq s)\<rparr>"

definition upsert_id :: "string \<Rightarrow> conn \<Rightarrow> nat" where
  "upsert_id city s =
     snd (upsert_city (city_id_seq s) city (country_of city) (dim_city (working s)))"

definition after_insert :: "snapshot_row \<Rightarrow> conn \<Rightarrow> conn" where
  "after_insert sn s =
     s\<lparr>working := (working s)
         \<lparr>fact_weather_snapshot := insert_snapshot sn (fact_weather_snapshot (working s))\<rparr>\<rparr>"

text \<open>Reading a string of decimal digits, to state what \<open>str_nat\<close> writes.\<close>

definition digit_value :: "char \<Rightarrow> nat" where
  "digit_value c = of_char c - 48"

definition nat_of_digits :: "string \<Rightarrow> nat" where
  "nat_of_digits s = foldl (\<lambda>a c. 10 * a + digit_value c) 0 s"

text \<open>
  \<open>persists d d'\<close>: every snapshot of \<open>d\<close> is in \<open>d'\<close>, and every city of \<open>d\<close> is
  in \<open>d'\<close> under the same identifier.
\<close>

definition persists :: "db \<Rightarrow> db \<Rightarrow> bool" where
  "persists d d' \<longleftrightarrow>
     set (fact_weather_snapshot d) \<subseteq> set (fact_weather_snapshot d') \<and>
     set (map (\<lambda>r. (city_id r, city_name r)) (dim_city d))
       \<subseteq> set (map (\<lambda>r. (city_id r, city_name r)) (dim_city d'))"

text \<open>
  A connection between two iterations: both views are well-formed, and the sequence
  stands above every identifier of either.
\<close>

definition ids_below :: "nat \<Rightarrow> db \<Rightarrow> bool" where
  "ids_below n d \<longleftrightarrow> (\<forall>r \<in> set (dim_city d). city_id r < n)"

definition conn_wf :: "conn \<Rightarrow> bool" where
  "conn_wf s \<longleftrightarrow>
     wf_db (committed s) \<and> wf_db (working s) \<and>
     ids_below (city_id_seq s) (committed s) \<and> ids_below (city_id_seq s) (working s)"

text \<open>Nothing is pending for a city: both views of the tables agree on it.\<close>

definition settled :: "string \<Rightarrow> conn \<Rightarrow> bool" where
  "settled c s \<longleftrightarrow>
     city_rows c (working s) = city_rows c (committed s) \<and>
     snapshots_of c (working s) = snapshots_of c (committed s)"

text \<open>
  A database error occurs in the iteration's \<open>try\<close>: the city is geocoded, and the
  upsert raises, or the weather is fetched well and the insert or the commit raises.
  Whether the handler's rollback then succeeds is \<open>rollback_fails\<close>.
\<close>

definition db_error :: "city_events \<Rightarrow> bool" where
  "db_error ev \<longleftrightarrow>
     geocoded ev \<and> (upsert_fails ev \<or> (weather_ok ev \<and> (insert_fails ev \<or> commit_fails ev)))"

text \<open>The connection after the handler has rolled back and logged.\<close>

definition rolled_back :: "string \<Rightarrow> conn \<Rightarrow> conn" where
  "rolled_back city s = s\<lparr>working := committed s, log := log s @ [ErrorSkipping city]\<rparr>"

text \<open>
  The row an iteration hands to the insert, for the identifier \<open>cid\<close>: the one
  \<open>weather_row\<close> builds from a 200 response, if it builds one.
\<close>

definition snapshot_for :: "nat \<Rightarrow> city_events \<Rightarrow> snapshot_row option" where
  "snapshot_for cid ev =
     (case weather ev of
        WeatherRaises \<Rightarrow> None
      | WeatherResponse status body \<Rightarrow>
          if status \<noteq> 200 then None
          else (case weather_row cid (db_time ev) body of Inl e \<Rightarrow> None | Inr sn \<Rightarrow> Some sn))"

section \<open>Sample inputs\<close>

definition sample_current :: current_weather where
  "sample_current =
     \<lparr>temperature_2m = Some 21, apparent_temperature = Some 20,
      relative_humidity_2m = Some 64, weather_code = Some 2, wind_speed_10m = Some 3\<rparr>"

definition ev_ok :: "nat \<Rightarrow> city_events" where
  "ev_ok t =
     \<lparr>geo = GeoResponse 200 (JsonArray [GeoObject (Numeric (Finite (-1))) (Numeric (Finite 37))]),
      upsert_fails = False,
      weather = WeatherResponse 200 (WCurrent sample_current),
      insert_fails = False, commit_fails = False, rollback_fails = False, db_time = t\<rparr>"

definition sample_script :: "(string \<times> city_events) list" where
  "sample_script = [(''Nairobi,Kenya'', ev_ok 1), (''London,UK'', ev_ok 1)]"

definition ev_503 :: city_events where
  "ev_503 = (ev_ok 1)\<lparr>weather := WeatherResponse 503 WInvalidJson\<rparr>"

definition csv :: "string \<Rightarrow> real \<Rightarrow> csv_row" where
  "csv name score =
     \<lparr>csv_country_name = name, csv_ladder_score = score, csv_log_gdp_per_capita = 1,
      csv_social_support = 1, csv_healthy_life_expectancy = 1,
      csv_freedom_to_make_life_choices = 1, csv_generosity = 1,
      csv_perceptions_of_corruption = 1\<rparr>"

text \<open>A CSV whose rows are not in descending order of score.\<close>

definition sample_csv :: "csv_row list" where
  "sample_csv =
     [csv ''Lesotho'' 3.186, csv ''Kenya'' 4.470, csv ''Brazil'' 6.272,
      csv ''Canada'' 6.900, csv ''Iceland'' 7.525, csv ''Finland'' 7.741]"

text \<open>
  Three more events for Paris: the insert of the snapshot is refused; the connection is
  lost at the insert, so that the rollback of the handler raises too; the weather request
  raises.
\<close>

definition ev_insert_fails :: city_events where
  "ev_insert_fails = (ev_ok 2)\<lparr>insert_fails := True\<rparr>"

definition ev_connection_lost :: city_events where
  "ev_connection_lost = (ev_ok 2)\<lparr>insert_fails := True, rollback_fails := True\<rparr>"

definition ev_request_raises :: city_events where
  "ev_request_raises = (ev_ok 2)\<lparr>weather := WeatherRaises\<rparr>"

section \<open>Lemmas\<close>

lemma split_ws_word:
  "split_ws cur s =
     (if cur = [] then
        (if dropWhile is_space s = [] then []
         else takeWhile (\<lambda>c. \<not> is_space c) (dropWhile is_space s)
                # split_ws [] (dropWhile (\<lambda>c. \<not> is_space c) (dropWhile is_space s)))
      else (cur @ takeWhile (\<lambda>c. \<not> is_space c) s)
             # split_ws [] (dropWhile (\<lambda>c. \<not> is_space c) s))"
proof (induction s arbitrary: cur)
  case Nil
  show ?case by simp
next
  case (Cons c cs)
  show ?case
  proof (cases "is_space c")
    case True
    then show ?thesis
      using Cons.IH [of "[]"] by simp
  next
    case False
    then show ?thesis
      using Cons.IH [of "cur @ [c]"] by simp
  qed
qed

lemma first_word_eq:
  "first_word s =
     (if dropWhile is_space s = [] then Inl IndexError
      else Inr (takeWhile (\<lambda>c. \<not> is_space c) (dropWhile is_space s)))"
  unfolding first_word_def py_split_def
  by (subst split_ws_word) simp

lemma not_space_letters [simp]:
  "\<not> is_space CHR ''W''" "is_space CHR '' ''"
  by (simp_all add: is_space_def whitespace_def)

lemma weather_desc_cases:
  "weather_desc code =
     (if code = 0 then ''Clear sky'' else if code = 1 then ''Mainly clear''
      else if code = 2 then ''Partly cloudy'' else if code = 3 then ''Overcast''
      else if code = 45 then ''Fog'' else if code = 48 then ''Depositing rime fog''
      else if code = 51 then ''Light drizzle'' else if code = 61 then ''Rain''
      else if code = 71 then ''Snow'' else if code = 80 then ''Rain showers''
      else if code = 95 then ''Thunderstorm'' else ''Weather code '' @ str_int code)"
  by (simp add: weather_desc_def descriptions_def)

lemma weather_main_total: "\<exists>w. weather_main_of code = Inr w \<and> (w = ''Clouds'' \<longleftrightarrow> 1 \<le> code \<and> code \<le> 3)"
proof (cases "1 \<le> code \<and> code \<le> 3")
  case True
  then show ?thesis by (simp add: weather_main_of_def)
next
  case False
  then show ?thesis
    by (auto simp add: weather_main_of_def weather_desc_cases first_word_eq is_space_def
        whitespace_def)
qed

lemma digit_value_nth: "d < 10 \<Longrightarrow> digit_value (''0123456789'' ! d) = d"
proof -
  assume "d < 10"
  then have "d \<in> {0, 1, 2, 3, 4, 5, 6, 7, 8, 9}" by auto
  then show ?thesis by (auto simp: digit_value_def)
qed

lemma connect_simps [simp]:
  "committed (connect d) = d" "working (connect d) = d" "log (connect d) = []"
  "city_id_seq (connect d) = sequence_start (dim_city d)"
  by (simp_all add: connect_def)

subsection \<open>The city upsert\<close>

lemma sequence_start_above: "r \<in> set rows \<Longrightarrow> city_id r < sequence_start rows"
  unfolding sequence_start_def by (induction rows) auto

lemma upsert_city_names:
  "map city_name (fst (upsert_city n city country rows)) =
     (if city \<in> set (map city_name rows) then map city_name rows
      else map city_name rows @ [city])"
proof (cases "find (\<lambda>r. city_name r = city) rows")
  case None
  then have "city \<notin> set (map city_name rows)"
    by (auto simp: find_None_iff)
  with None show ?thesis by (simp add: upsert_city_def)
next
  case (Some r)
  then have "city \<in> set (map city_name rows)"
    by (auto simp: find_Some_iff)
  moreover have "map city_name (map (\<lambda>r'. if city_name r' = city then r'\<lparr>country_name := country\<rparr> else r') rows)
      = map city_name rows"
    by (induction rows) auto
  ultimately show ?thesis using Some by (simp add: upsert_city_def)
qed

lemma upsert_city_ids:
  "map city_id (fst (upsert_city n city country rows)) =
     (if city \<in> set (map city_name rows) then map city_id rows
      else map city_id rows @ [n])"
proof (cases "find (\<lambda>r. city_name r = city) rows")
  case None
  then have "city \<notin> set (map city_name rows)"
    by (auto simp: find_None_iff)
  with None show ?thesis by (simp add: upsert_city_def)
next
  case (Some r)
  then have "city \<in> set (map city_name rows)"
    by (auto simp: find_Some_iff)
  moreover have "map city_id (map (\<lambda>r'. if city_name r' = city then r'\<lparr>country_name := country\<rparr> else r') rows)
      = map city_id rows"
    by (induction rows) auto
  ultimately show ?thesis using Some by (simp add: upsert_city_def)
qed

lemma upsert_city_keys:
  "map (\<lambda>r. (city_id r, city_name r)) (fst (upsert_city n city country rows)) =
     (if city \<in> set (map city_name rows) then map (\<lambda>r. (city_id r, city_name r)) rows
      else map (\<lambda>r. (city_id r, city_name r)) rows @ [(n, city)])"
proof (cases "find (\<lambda>r. city_name r = city) rows")
  case None
  then have "city \<notin> set (map city_name rows)"
    by (auto simp: find_None_iff)
  with None show ?thesis by (simp add: upsert_city_def)
next
  case (Some r)
  then have "city \<in> set (map city_name rows)"
    by (auto simp: find_Some_iff)
  moreover have "map (\<lambda>r. (city_id r, city_name r)) (map (\<lambda>r'. if city_name r' = city then r'\<lparr>country_name := country\<rparr> else r') rows)
      = map (\<lambda>r. (city_id r, city_name r)) rows"
    by (induction rows) auto
  ultimately show ?thesis using Some by (simp add: upsert_city_def)
qed

lemma upsert_city_returns:
  "(snd (upsert_city n city country rows), city)
     \<in> set (map (\<lambda>r. (city_id r, city_name r)) (fst (upsert_city n city country rows)))"
proof (cases "find (\<lambda>r. city_name r = city) rows")
  case None
  then show ?thesis by (simp add: upsert_city_def)
next
  case (Some r)
  then have "r \<in> set rows" "city_name r = city"
    by (auto simp: find_Some_iff in_set_conv_nth)
  then have "(city_id r, city) \<in> set (map (\<lambda>r. (city_id r, city_name r)) rows)"
    by force
  moreover have "city \<in> set (map city_name rows)"
    using \<open>r \<in> set rows\<close> \<open>city_name r = city\<close> by force
  ultimately show ?thesis
    using Some upsert_city_keys [of n city country rows] by (simp add: upsert_city_def)
qed

lemma upsert_city_other:
  "c \<noteq> city \<Longrightarrow>
   filter (\<lambda>r. city_name r = c) (fst (upsert_city n city country rows)) =
   filter (\<lambda>r. city_name r = c) rows"
proof (cases "find (\<lambda>r. city_name r = city) rows")
  case None
  assume "c \<noteq> city"
  with None show ?thesis by (simp add: upsert_city_def)
next
  case (Some r)
  assume ne: "c \<noteq> city"
  have "filter (\<lambda>r. city_name r = c)
          (map (\<lambda>r'. if city_name r' = city then r'\<lparr>country_name := country\<rparr> else r') rows)
        = filter (\<lambda>r. city_name r = c) rows"
    using ne by (induction rows) auto
  with Some show ?thesis by (simp add: upsert_city_def)
qed

lemma distinct_count_one:
  "distinct (map f xs) \<Longrightarrow> x \<in> set (map f xs) \<Longrightarrow> length (filter (\<lambda>r. f r = x) xs) = 1"
proof (induction xs)
  case Nil
  then show ?case by simp
next
  case (Cons a xs)
  show ?case
  proof (cases "f a = x")
    case True
    with Cons.prems have "\<forall>r \<in> set xs. f r \<noteq> x" by (auto simp: image_iff)
    then have "filter (\<lambda>r. f r = x) xs = []" by (simp add: filter_empty_conv)
    with True show ?thesis by simp
  next
    case False
    with Cons show ?thesis by auto
  qed
qed

lemma upsert_city_distinct_names:
  "distinct (map city_name rows) \<Longrightarrow> distinct (map city_name (fst (upsert_city n city country rows)))"
  by (simp add: upsert_city_names)

lemma upsert_city_distinct_ids:
  "distinct (map city_id rows) \<Longrightarrow> n \<notin> set (map city_id rows) \<Longrightarrow>
   distinct (map city_id (fst (upsert_city n city country rows)))"
  by (simp add: upsert_city_ids)

lemma upsert_city_one_row:
  "distinct (map city_name rows) \<Longrightarrow>
   length (filter (\<lambda>r. city_name r = city) (fst (upsert_city n city country rows))) = 1"
  by (rule distinct_count_one) (simp_all add: upsert_city_names)

lemma fetch_coordinates_city: "fst (fetch_coordinates city g) = fst (fetch_coordinates city' g)"
  by (simp add: fetch_coordinates_def split: geo_outcome.splits sum.splits option.splits prod.splits)

lemma fetch_coordinates_shape:
  "fetch_coordinates city g = ((None, None), []) \<or>
   fetch_coordinates city g = ((None, None), [GeocodingWarning city]) \<or>
   (\<exists>x y. fetch_coordinates city g = ((Some x, Some y), []))"
  by (simp add: fetch_coordinates_def split: geo_outcome.splits sum.splits option.splits prod.splits)

lemma geocoded_iff:
  "geocoded ev \<longleftrightarrow>
     (\<exists>x y. fetch_coordinates city (geo ev) = ((Some x, Some y), []) \<and> float_truthy x \<and> float_truthy y)"
  using fetch_coordinates_shape [of city "geo ev"] fetch_coordinates_city [of "[]" "geo ev" city]
  by (auto simp: geocoded_def truthy_def split: prod.splits)

lemma per_city_skip:
  "\<not> geocoded ev \<Longrightarrow>
   per_city city ev s = (Normal, s\<lparr>log := log s @ snd (fetch_coordinates city (geo ev))\<rparr>)"
  using fetch_coordinates_city [of "[]" "geo ev" city]
  by (auto simp: per_city_def geocoded_def split: prod.splits)

lemma weather_row_ids:
  "weather_row cid now body = Inr sn \<Longrightarrow> snap_city_id sn = cid \<and> fetch_date sn = now"
  by (auto simp: weather_row_def split: weather_json.splits option.splits sum.splits)

lemma weather_row_indep:
  "(\<exists>e. weather_row cid now body = Inl e) \<longleftrightarrow> (\<exists>e. weather_row cid' now' body = Inl e)"
  by (auto simp: weather_row_def split: weather_json.splits option.splits sum.splits)

lemma per_city_geocoded:
  assumes "geocoded ev"
  shows "per_city city ev s =
     (if upsert_fails ev then on_db_error city (rollback_fails ev) s
      else (case weather ev of
              WeatherRaises \<Rightarrow> (Raised RequestException, after_upsert city s)
            | WeatherResponse status body \<Rightarrow>
                if status \<noteq> 200 then (Normal, after_upsert city s)
                else (case weather_row (upsert_id city s) (db_time ev) body of
                        Inl e \<Rightarrow> (Raised e, after_upsert city s)
                      | Inr sn \<Rightarrow>
                          if insert_fails ev
                          then on_db_error city (rollback_fails ev) (after_upsert city s)
                          else if commit_fails ev
                            then on_db_error city (rollback_fails ev)
                                   (after_insert sn (after_upsert city s))
                            else (Normal, (after_insert sn (after_upsert city s))
                                   \<lparr>committed := working (after_insert sn (after_upsert city s)),
                                    log := log s @ [LoadedWeather city (country_of city)]\<rparr>))))"
proof -
  from assms obtain x y where
    fc: "fetch_coordinates city (geo ev) = ((Some x, Some y), [])" and t: "float_truthy x" "float_truthy y"
    using geocoded_iff [of ev city] by blast
  show ?thesis
    by (simp add: per_city_def fc t truthy_def Let_def after_upsert_def upsert_id_def
        after_insert_def split: prod.splits weather_outcome.splits sum.splits)
qed

lemma on_db_error_simps:
  "on_db_error city False s = (Normal, rolled_back city s)"
  "on_db_error city True s = (Raised DatabaseError, s)"
  by (simp_all add: on_db_error_def rolled_back_def)

lemma rolled_back_simps [simp]:
  "committed (rolled_back city s) = committed s"
  "working (rolled_back city s) = committed s"
  "log (rolled_back city s) = log s @ [ErrorSkipping city]"
  "city_id_seq (rolled_back city s) = city_id_seq s"
  "rolled_back city (after_insert sn s) = rolled_back city s"
  by (simp_all add: rolled_back_def after_insert_def)

lemma after_simps [simp]:
  "committed (after_upsert city s) = committed s"
  "log (after_upsert city s) = log s"
  "city_id_seq (after_upsert city s) = Suc (city_id_seq s)"
  "committed (after_insert sn s) = committed s"
  "log (after_insert sn s) = log s"
  "city_id_seq (after_insert sn s) = city_id_seq s"
  "dim_city (working (after_insert sn s)) = dim_city (working s)"
  "fact_weather_snapshot (working (after_upsert city s)) = fact_weather_snapshot (working s)"
  "fact_weather_snapshot (working (after_insert sn s)) =
     insert_snapshot sn (fact_weather_snapshot (working s))"
  "dim_city (working (after_upsert city s)) =
     fst (upsert_city (city_id_seq s) city (country_of city) (dim_city (working s)))"
  by (simp_all add: after_upsert_def after_insert_def)

lemma weather_row_error:
  "weather_row cid now body = Inl e \<longleftrightarrow> weather_row cid' now' body = Inl e"
  by (auto simp: weather_row_def split: weather_json.splits option.splits sum.splits)

lemma weather_row_success:
  "(\<exists>sn. weather_row cid now body = Inr sn) \<longleftrightarrow> (\<exists>sn. weather_row cid' now' body = Inr sn)"
  by (simp add: weather_row_def split: weather_json.splits option.splits sum.splits)

lemma weather_ok_iff:
  "weather_ok ev \<longleftrightarrow>
     (\<exists>body sn. weather ev = WeatherResponse 200 body \<and> weather_row cid now body = Inr sn)"
proof (cases "weather ev")
  case WeatherRaises
  then show ?thesis by (simp add: weather_ok_def)
next
  case (WeatherResponse status body)
  have "(case weather_row 0 0 body of Inl e \<Rightarrow> False | Inr sn \<Rightarrow> True)
      \<longleftrightarrow> (\<exists>sn. weather_row 0 0 body = Inr sn)"
    by (cases "weather_row 0 0 body") simp_all
  also have "\<dots> \<longleftrightarrow> (\<exists>sn. weather_row cid now body = Inr sn)"
    by (rule weather_row_success)
  finally show ?thesis using WeatherResponse by (auto simp: weather_ok_def)
qed

lemma weather_ok_row:
  assumes "weather_ok ev"
  obtains status body sn where "weather ev = WeatherResponse status body" "status = 200"
    "weather_row cid now body = Inr sn" "snap_city_id sn = cid" "fetch_date sn = now"
proof -
  from assms obtain status body where w: "weather ev = WeatherResponse status body" "status = 200"
    and "\<not> (\<exists>e. weather_row 0 0 body = Inl e)"
    by (auto simp: weather_ok_def split: weather_outcome.splits sum.splits)
  then have "\<not> (\<exists>e. weather_row cid now body = Inl e)"
    using weather_row_indep [of cid now body 0 0] by blast
  then obtain sn where r: "weather_row cid now body = Inr sn"
    by (cases "weather_row cid now body") auto
  with w weather_row_ids [OF r] that show thesis by blast
qed

lemma per_city_loads:
  assumes "loads ev"
  obtains sn where
    "snap_city_id sn = upsert_id city s" "fetch_date sn = db_time ev"
    "per_city city ev s =
       (Normal, (after_insert sn (after_upsert city s))
          \<lparr>committed := working (after_insert sn (after_upsert city s)),
           log := log s @ [LoadedWeather city (country_of city)]\<rparr>)"
proof -
  from assms have g: "geocoded ev" and w: "weather_ok ev" and d: "db_ok ev"
    by (simp_all add: loads_def)
  from w obtain status body sn where
    *: "weather ev = WeatherResponse status body" "status = 200"
       "weather_row (upsert_id city s) (db_time ev) body = Inr sn"
       "snap_city_id sn = upsert_id city s" "fetch_date sn = db_time ev"
    by (rule weather_ok_row)
  have "per_city city ev s =
       (Normal, (after_insert sn (after_upsert city s))
          \<lparr>committed := working (after_insert sn (after_upsert city s)),
           log := log s @ [LoadedWeather city (country_of city)]\<rparr>)"
    using d * by (simp add: per_city_geocoded [OF g] db_ok_def)
  with * that show thesis by blast
qed

lemma snapshot_for_ids:
  "snapshot_for cid ev = Some sn \<Longrightarrow> snap_city_id sn = cid \<and> fetch_date sn = db_time ev"
  using weather_row_ids
  by (auto simp: snapshot_for_def split: weather_outcome.splits if_splits sum.splits)

lemma per_city_loads_row:
  assumes "loads ev"
  obtains sn where
    "snapshot_for (upsert_id city s) ev = Some sn"
    "per_city city ev s =
       (Normal, (after_insert sn (after_upsert city s))
          \<lparr>committed := working (after_insert sn (after_upsert city s)),
           log := log s @ [LoadedWeather city (country_of city)]\<rparr>)"
proof -
  from assms have g: "geocoded ev" and w: "weather_ok ev" and d: "db_ok ev"
    by (simp_all add: loads_def)
  from w obtain status body sn where
    *: "weather ev = WeatherResponse status body" "status = 200"
       "weather_row (upsert_id city s) (db_time ev) body = Inr sn"
    by (rule weather_ok_row)
  have "per_city city ev s =
       (Normal, (after_insert sn (after_upsert city s))
          \<lparr>committed := working (after_insert sn (after_upsert city s)),
           log := log s @ [LoadedWeather city (country_of city)]\<rparr>)"
    using d * by (simp add: per_city_geocoded [OF g] db_ok_def)
  moreover have "snapshot_for (upsert_id city s) ev = Some sn"
    using * by (simp add: snapshot_for_def)
  ultimately show thesis using that by blast
qed

lemma per_city_not_loads:
  assumes "\<not> loads ev"
  shows "committed (snd (per_city city ev s)) = committed s"
proof (cases "geocoded ev")
  case False
  then show ?thesis by (simp add: per_city_skip)
next
  case True
  show ?thesis
  proof (cases "weather_ok ev")
    case False
    then show ?thesis
      using weather_ok_iff [of ev "upsert_id city s" "db_time ev"]
      by (auto simp: per_city_geocoded [OF True] on_db_error_def
          split: weather_outcome.splits sum.splits)
  next
    case w: True
    with True assms have "upsert_fails ev \<or> insert_fails ev \<or> commit_fails ev"
      by (simp add: loads_def db_ok_def)
    then show ?thesis
      by (auto simp: per_city_geocoded [OF True] on_db_error_def
          split: weather_outcome.splits sum.splits)
  qed
qed

text \<open>The ways an iteration can leave the connection.\<close>

lemma per_city_cases:
  obtains
    (skip) "\<not> geocoded ev"
      "per_city city ev s = (Normal, s\<lparr>log := log s @ snd (fetch_coordinates city (geo ev))\<rparr>)"
  | (rollback) t where "db_error ev" "\<not> rollback_fails ev"
      "t = s \<or> t = after_upsert city s"
      "per_city city ev s = (Normal, rolled_back city t)"
  | (broken) "db_error ev" "rollback_fails ev" "upsert_fails ev"
      "per_city city ev s = (Raised DatabaseError, s)"
  | (pending) out where "geocoded ev" "\<not> loads ev" "\<not> upsert_fails ev"
      "per_city city ev s = (out, after_upsert city s)"
  | (inserted) sn where "db_error ev" "rollback_fails ev"
      "snap_city_id sn = upsert_id city s" "fetch_date sn = db_time ev"
      "per_city city ev s = (Raised DatabaseError, after_insert sn (after_upsert city s))"
  | (commit) sn where "loads ev" "snap_city_id sn = upsert_id city s" "fetch_date sn = db_time ev"
      "per_city city ev s =
         (Normal, (after_insert sn (after_upsert city s))
            \<lparr>committed := working (after_insert sn (after_upsert city s)),
             log := log s @ [LoadedWeather city (country_of city)]\<rparr>)"
proof (cases "geocoded ev")
  case False
  then show thesis using skip per_city_skip by blast
next
  case g: True
  show thesis
  proof (cases "loads ev")
    case True
    then show thesis using commit per_city_loads [of ev city s] by metis
  next
    case nl: False
    show thesis
    proof (cases "upsert_fails ev")
      case True
      with g have e: "db_error ev" by (simp add: db_error_def)
      show thesis
      proof (cases "rollback_fails ev")
        case True
        with \<open>upsert_fails ev\<close> have "per_city city ev s = (Raised DatabaseError, s)"
          by (simp add: per_city_geocoded [OF g] on_db_error_simps)
        with e True \<open>upsert_fails ev\<close> show thesis using broken by blast
      next
        case False
        with \<open>upsert_fails ev\<close> have "per_city city ev s = (Normal, rolled_back city s)"
          by (simp add: per_city_geocoded [OF g] on_db_error_simps)
        with e False show thesis using rollback by blast
      qed
    next
      case uf: False
      show thesis
      proof (cases "weather_ok ev")
        case True
        with g nl uf have f: "insert_fails ev \<or> commit_fails ev"
          by (simp add: loads_def db_ok_def)
        with g True have e: "db_error ev" by (simp add: db_error_def)
        from True obtain status body sn where
          w: "weather ev = WeatherResponse status body" "status = 200"
          "weather_row (upsert_id city s) (db_time ev) body = Inr sn"
          and sn: "snap_city_id sn = upsert_id city s" "fetch_date sn = db_time ev"
          by (rule weather_ok_row)
        show thesis
        proof (cases "rollback_fails ev")
          case False
          with f uf w have "per_city city ev s = (Normal, rolled_back city (after_upsert city s))"
            by (auto simp: per_city_geocoded [OF g] on_db_error_simps)
          with e False show thesis using rollback by blast
        next
          case rb: True
          show thesis
          proof (cases "insert_fails ev")
            case True
            with rb uf w have "per_city city ev s = (Raised DatabaseError, after_upsert city s)"
              by (simp add: per_city_geocoded [OF g] on_db_error_simps)
            then show thesis using pending g nl uf by blast
          next
            case False
            with f rb uf w have "per_city city ev s =
                (Raised DatabaseError, after_insert sn (after_upsert city s))"
              by (simp add: per_city_geocoded [OF g] on_db_error_simps)
            with e rb sn show thesis using inserted by blast
          qed
        qed
      next
        case False
        then have "\<exists>out. per_city city ev s = (out, after_upsert city s)"
          using uf weather_ok_iff [of ev "upsert_id city s" "db_time ev"]
          by (auto simp: per_city_geocoded [OF g]
              split: weather_outcome.splits sum.splits)
        then show thesis using pending g nl uf by blast
      qed
    qed
  qed
qed

subsection \<open>Invariants of the loop\<close>

lemma upsert_id_row:
  "(upsert_id city s, city)
     \<in> set (map (\<lambda>r. (city_id r, city_name r)) (dim_city (working (after_upsert city s))))"
  using upsert_city_returns [of "city_id_seq s" city "country_of city" "dim_city (working s)"]
  by (simp add: upsert_id_def)

lemma key_in_table_id:
  "(i, c) \<in> set (map (\<lambda>r. (city_id r, city_name r)) rows) \<Longrightarrow> i \<in> set (map city_id rows)"
  by (induction rows) auto

lemma upsert_id_in_table:
  "upsert_id city s \<in> set (map city_id (dim_city (working (after_upsert city s))))"
  using upsert_id_row [of city s] by (rule key_in_table_id)

lemma ids_grow:
  "set (map city_id rows) \<subseteq> set (map city_id (fst (upsert_city n city country rows)))"
  by (auto simp: upsert_city_ids)

lemma parent_exists_upsert:
  "parent_exists (working s) \<Longrightarrow> parent_exists (working (after_upsert city s))"
  using ids_grow [of "dim_city (working s)" "city_id_seq s" city "country_of city"]
  unfolding parent_exists_def by (simp add: subset_iff)

lemma set_insert_snapshot:
  "set (insert_snapshot sn rows) \<subseteq> insert sn (set rows)" "set rows \<subseteq> set (insert_snapshot sn rows)"
  by (auto simp: insert_snapshot_def)

lemma parent_exists_insert:
  "parent_exists (working s) \<Longrightarrow> snap_city_id sn \<in> set (map city_id (dim_city (working s)))
   \<Longrightarrow> parent_exists (working (after_insert sn s))"
  using set_insert_snapshot(1) [of sn "fact_weather_snapshot (working s)"]
  unfolding parent_exists_def by auto

lemma parent_exists_per_city:
  assumes "parent_exists (committed s)" "parent_exists (working s)"
  shows "parent_exists (committed (snd (per_city city ev s))) \<and>
         parent_exists (working (snd (per_city city ev s)))"
proof (cases rule: per_city_cases [of ev city s])
  case skip
  with assms show ?thesis by simp
next
  case (rollback t)
  with assms show ?thesis by auto
next
  case broken
  with assms show ?thesis by simp
next
  case (pending out)
  with assms show ?thesis by (simp add: parent_exists_upsert)
next
  case (inserted sn)
  have "parent_exists (working (after_insert sn (after_upsert city s)))"
    using assms(2) inserted(3) upsert_id_in_table [of city s]
    by (intro parent_exists_insert parent_exists_upsert) simp_all
  with inserted assms show ?thesis by simp
next
  case (commit sn)
  have "parent_exists (working (after_insert sn (after_upsert city s)))"
    using assms(2) commit(2) upsert_id_in_table [of city s]
    by (intro parent_exists_insert parent_exists_upsert) simp_all
  with commit show ?thesis by simp
qed

lemma parent_exists_loop:
  "parent_exists (committed s) \<Longrightarrow> parent_exists (working s) \<Longrightarrow>
   parent_exists (committed (snd (weather_loop script s))) \<and>
   parent_exists (working (snd (weather_loop script s)))"
proof (induction script arbitrary: s)
  case Nil
  then show ?case by simp
next
  case (Cons a script)
  obtain city ev where a: "a = (city, ev)" by (cases a)
  obtain out s' where p: "per_city city ev s = (out, s')" by (cases "per_city city ev s")
  have inv: "parent_exists (committed s')" "parent_exists (working s')"
    using parent_exists_per_city [OF Cons.prems, of city ev] p by simp_all
  show ?case
  proof (cases out)
    case Normal
    with a p Cons.IH [OF inv] show ?thesis by simp
  next
    case (Raised e)
    with a p inv show ?thesis by simp
  qed
qed

lemma fetch_and_load_weather_committed:
  "fst (snd (fetch_and_load_weather script d)) =
     committed (snd (weather_loop script (connect d)))"
  by (simp add: fetch_and_load_weather_def split: prod.splits outcome.splits)

lemma new_snapshot_parent:
  assumes "sn \<in> set (fact_weather_snapshot (working (snd (per_city city ev s))))"
    and "sn \<notin> set (fact_weather_snapshot (working s))"
    and "sn \<notin> set (fact_weather_snapshot (committed s))"
  shows "snap_city_id sn = upsert_id city s \<and>
         (upsert_id city s, city) \<in> set (map (\<lambda>r. (city_id r, city_name r))
            (dim_city (working (snd (per_city city ev s)))))"
proof (cases rule: per_city_cases [of ev city s])
  case skip
  with assms show ?thesis by simp
next
  case (rollback t)
  with assms show ?thesis by auto
next
  case broken
  with assms show ?thesis by simp
next
  case (pending out)
  with assms show ?thesis by simp
next
  case (inserted sn')
  with assms have "sn \<in> set (insert_snapshot sn' (fact_weather_snapshot (working s)))"
    by simp
  with assms(2) have "sn = sn'"
    using set_insert_snapshot(1) [of sn' "fact_weather_snapshot (working s)"] by auto
  with inserted upsert_id_row [of city s] show ?thesis by simp
next
  case (commit sn')
  with assms have "sn \<in> set (insert_snapshot sn' (fact_weather_snapshot (working s)))"
    by simp
  with assms(2) have "sn = sn'"
    using set_insert_snapshot(1) [of sn' "fact_weather_snapshot (working s)"] by auto
  with commit upsert_id_row [of city s] show ?thesis by simp
qed

lemma insert_snapshot_distinct:
  "distinct (map conflict_key rows) \<Longrightarrow> distinct (map conflict_key (insert_snapshot sn rows))"
  by (simp add: insert_snapshot_def)

lemma ids_below_fresh: "ids_below n d \<Longrightarrow> n \<notin> set (map city_id (dim_city d))"
  unfolding ids_below_def by auto

lemma ids_below_upsert:
  assumes "ids_below (city_id_seq s) (working s)"
  shows "ids_below (Suc (city_id_seq s)) (working (after_upsert city s))"
proof -
  have "set (map city_id (dim_city (working (after_upsert city s))))
      \<subseteq> insert (city_id_seq s) (set (map city_id (dim_city (working s))))"
    by (auto simp: upsert_city_ids)
  with assms show ?thesis
    unfolding ids_below_def by fastforce
qed

lemma ids_below_Suc: "ids_below n d \<Longrightarrow> ids_below (Suc n) d"
  unfolding ids_below_def by auto

lemma ids_below_insert [simp]:
  "ids_below n (working (after_insert sn s)) \<longleftrightarrow> ids_below n (working s)"
  by (simp add: ids_below_def)

lemma wf_db_upsert:
  "wf_db (working s) \<Longrightarrow> ids_below (city_id_seq s) (working s) \<Longrightarrow>
   wf_db (working (after_upsert city s))"
proof -
  assume wf: "wf_db (working s)" and below: "ids_below (city_id_seq s) (working s)"
  have "distinct (map city_id (dim_city (working (after_upsert city s))))"
    using wf ids_below_fresh [OF below]
    by (simp add: wf_db_def upsert_city_distinct_ids)
  with wf show ?thesis
    by (simp add: wf_db_def upsert_city_distinct_names parent_exists_upsert)
qed

lemma wf_db_insert:
  "wf_db (working s) \<Longrightarrow> snap_city_id sn \<in> set (map city_id (dim_city (working s)))
   \<Longrightarrow> wf_db (working (after_insert sn s))"
  unfolding wf_db_def
  by (simp add: insert_snapshot_distinct parent_exists_insert)

lemma conn_wf_upsert: "conn_wf s \<Longrightarrow> conn_wf (after_upsert city s)"
  by (simp add: conn_wf_def wf_db_upsert ids_below_upsert ids_below_Suc)

lemma conn_wf_insert:
  "conn_wf s \<Longrightarrow> snap_city_id sn \<in> set (map city_id (dim_city (working s))) \<Longrightarrow>
   conn_wf (after_insert sn s)"
  by (simp add: conn_wf_def wf_db_insert)

lemma conn_wf_rolled_back: "conn_wf s \<Longrightarrow> conn_wf (rolled_back city s)"
  by (simp add: conn_wf_def)

lemma conn_wf_per_city:
  assumes "conn_wf s"
  shows "conn_wf (snd (per_city city ev s))"
proof (cases rule: per_city_cases [of ev city s])
  case skip
  with assms show ?thesis by (simp add: conn_wf_def)
next
  case (rollback t)
  with assms show ?thesis by (auto intro: conn_wf_rolled_back conn_wf_upsert)
next
  case broken
  with assms show ?thesis by simp
next
  case (pending out)
  with assms show ?thesis by (simp add: conn_wf_upsert)
next
  case (inserted sn)
  with assms upsert_id_in_table [of city s] show ?thesis
    by (simp add: conn_wf_insert conn_wf_upsert)
next
  case (commit sn)
  have "conn_wf (after_insert sn (after_upsert city s))"
    using assms commit(2) upsert_id_in_table [of city s]
    by (simp add: conn_wf_insert conn_wf_upsert)
  with commit show ?thesis by (simp add: conn_wf_def)
qed

lemma weather_loop_step:
  "weather_loop ((city, ev) # rest) s =
     (if fst (per_city city ev s) = Normal then weather_loop rest (snd (per_city city ev s))
      else per_city city ev s)"
  by (cases "per_city city ev s"; cases "fst (per_city city ev s)") auto

lemma weather_loop_append:
  "weather_loop (xs @ ys) s =
     (if fst (weather_loop xs s) = Normal then weather_loop ys (snd (weather_loop xs s))
      else weather_loop xs s)"
proof (induction xs arbitrary: s)
  case Nil
  then show ?case by simp
next
  case (Cons a xs)
  obtain city ev where a: "a = (city, ev)" by (cases a)
  show ?case
    unfolding a append_Cons weather_loop_step using Cons.IH by simp
qed

lemma conn_wf_loop: "conn_wf s \<Longrightarrow> conn_wf (snd (weather_loop script s))"
proof (induction script arbitrary: s)
  case Nil
  then show ?case by simp
next
  case (Cons a script)
  obtain city ev where a: "a = (city, ev)" by (cases a)
  have "conn_wf (snd (per_city city ev s))"
    using Cons.prems by (rule conn_wf_per_city)
  then show ?case
    unfolding a weather_loop_step using Cons.IH by simp
qed

subsection \<open>A city the iteration is not about\<close>

lemma key_unique:
  "distinct (map city_id rows) \<Longrightarrow>
   (i, a) \<in> set (map (\<lambda>r. (city_id r, city_name r)) rows) \<Longrightarrow>
   (i, b) \<in> set (map (\<lambda>r. (city_id r, city_name r)) rows) \<Longrightarrow> a = b"
  by (induction rows) (auto simp: image_iff)

lemma city_rows_upsert_other:
  "c \<noteq> city \<Longrightarrow> city_rows c (working (after_upsert city s)) = city_rows c (working s)"
  by (simp add: city_rows_def upsert_city_other)

lemma city_rows_insert [simp]:
  "city_rows c (working (after_insert sn s)) = city_rows c (working s)"
  by (simp add: city_rows_def)

lemma snapshots_of_upsert_other:
  "c \<noteq> city \<Longrightarrow> snapshots_of c (working (after_upsert city s)) = snapshots_of c (working s)"
  by (simp add: snapshots_of_def city_rows_upsert_other)

lemma filter_insert_snapshot:
  "\<not> P sn \<Longrightarrow> filter P (insert_snapshot sn rows) = filter P rows"
  by (simp add: insert_snapshot_def)

lemma city_rows_key:
  "i \<in> set (map city_id (filter (\<lambda>r. city_name r = c) rows)) \<Longrightarrow>
   (i, c) \<in> set (map (\<lambda>r. (city_id r, city_name r)) rows)"
  by (induction rows) (auto split: if_splits)

lemma snapshots_of_insert_other:
  assumes d: "distinct (map city_id (dim_city (working s)))"
    and k: "(snap_city_id sn, city) \<in> set (map (\<lambda>r. (city_id r, city_name r)) (dim_city (working s)))"
    and ne: "c \<noteq> city"
  shows "snapshots_of c (working (after_insert sn s)) = snapshots_of c (working s)"
proof -
  have "snap_city_id sn \<notin> set (map city_id (city_rows c (working s)))"
  proof
    assume "snap_city_id sn \<in> set (map city_id (city_rows c (working s)))"
    then have "(snap_city_id sn, c) \<in> set (map (\<lambda>r. (city_id r, city_name r)) (dim_city (working s)))"
      unfolding city_rows_def by (rule city_rows_key)
    from key_unique [OF d this k] ne show False by simp
  qed
  then have "filter (\<lambda>x. snap_city_id x \<in> set (map city_id (city_rows c (working s))))
               (insert_snapshot sn (fact_weather_snapshot (working s)))
           = filter (\<lambda>x. snap_city_id x \<in> set (map city_id (city_rows c (working s))))
               (fact_weather_snapshot (working s))"
    by (rule filter_insert_snapshot)
  then show ?thesis
    unfolding snapshots_of_def city_rows_insert by (simp only: after_simps)
qed

lemma per_city_frame:
  assumes "c \<noteq> city" "conn_wf s" "settled c s"
  shows "settled c (snd (per_city city ev s)) \<and>
         city_rows c (committed (snd (per_city city ev s))) = city_rows c (committed s) \<and>
         snapshots_of c (committed (snd (per_city city ev s))) = snapshots_of c (committed s)"
proof -
  have wf: "wf_db (working (after_upsert city s))"
    using assms(2) by (simp add: conn_wf_def wf_db_upsert)
  have ins: "snapshots_of c (working (after_insert sn (after_upsert city s))) = snapshots_of c (working s)"
    "city_rows c (working (after_insert sn (after_upsert city s))) = city_rows c (working s)"
    if "snap_city_id sn = upsert_id city s" for sn
  proof -
    have "snapshots_of c (working (after_insert sn (after_upsert city s)))
        = snapshots_of c (working (after_upsert city s))"
      using wf that upsert_id_row [of city s] assms(1)
      by (intro snapshots_of_insert_other) (simp_all add: wf_db_def)
    then show "snapshots_of c (working (after_insert sn (after_upsert city s))) = snapshots_of c (working s)"
      using assms(1) by (simp add: snapshots_of_upsert_other)
    show "city_rows c (working (after_insert sn (after_upsert city s))) = city_rows c (working s)"
      using assms(1) by (simp add: city_rows_upsert_other)
  qed
  show ?thesis
  proof (cases rule: per_city_cases [of ev city s])
    case skip
    with assms show ?thesis by (simp add: settled_def)
  next
    case (rollback t)
    with assms show ?thesis by (auto simp: settled_def)
  next
    case broken
    with assms show ?thesis by simp
  next
    case (pending out)
    with assms show ?thesis
      by (simp add: settled_def city_rows_upsert_other snapshots_of_upsert_other)
  next
    case (inserted sn)
    with assms(3) ins [of sn] show ?thesis by (simp add: settled_def)
  next
    case (commit sn)
    with assms(3) ins [of sn] show ?thesis by (simp add: settled_def)
  qed
qed

lemma weather_loop_frame:
  "c \<notin> fst ` set script \<Longrightarrow> conn_wf s \<Longrightarrow> settled c s \<Longrightarrow>
   settled c (snd (weather_loop script s)) \<and>
   city_rows c (committed (snd (weather_loop script s))) = city_rows c (committed s) \<and>
   snapshots_of c (committed (snd (weather_loop script s))) = snapshots_of c (committed s)"
proof (induction script arbitrary: s)
  case Nil
  then show ?case by simp
next
  case (Cons a script)
  obtain city ev where a: "a = (city, ev)" by (cases a)
  let ?s' = "snd (per_city city ev s)"
  from Cons.prems a have ne: "c \<noteq> city" and rest: "c \<notin> fst ` set script" by auto
  have step: "settled c ?s'" "city_rows c (committed ?s') = city_rows c (committed s)"
    "snapshots_of c (committed ?s') = snapshots_of c (committed s)"
    using per_city_frame [OF ne Cons.prems(2,3), of ev] by simp_all
  have wf: "conn_wf ?s'" using Cons.prems(2) by (rule conn_wf_per_city)
  show ?case
  proof (cases "fst (per_city city ev s) = Normal")
    case True
    with Cons.IH [OF rest wf step(1)] step show ?thesis
      unfolding a weather_loop_step by simp
  next
    case False
    with step show ?thesis unfolding a weather_loop_step by simp
  qed
qed

lemma city_rows_empty_iff: "city_rows c d = [] \<longleftrightarrow> c \<notin> set (map city_name (dim_city d))"
  by (auto simp: city_rows_def filter_empty_conv)

lemma find_filter_hd:
  "find P xs = (case filter P xs of [] \<Rightarrow> None | x # _ \<Rightarrow> Some x)"
  by (induction xs) auto

lemma filter_update_country:
  "filter (\<lambda>r. city_name r = city)
     (map (\<lambda>r'. if city_name r' = city then r'\<lparr>country_name := country\<rparr> else r') rows) =
   map (\<lambda>r. r\<lparr>country_name := country\<rparr>) (filter (\<lambda>r. city_name r = city) rows)"
  by (induction rows) auto

lemma upsert_city_rows:
  "filter (\<lambda>r. city_name r = city) (fst (upsert_city n city country rows)) =
     (if filter (\<lambda>r. city_name r = city) rows = []
      then [\<lparr>city_id = n, city_name = city, country_name = country\<rparr>]
      else map (\<lambda>r. r\<lparr>country_name := country\<rparr>) (filter (\<lambda>r. city_name r = city) rows))"
  by (cases "filter (\<lambda>r. city_name r = city) rows")
    (simp_all add: upsert_city_def find_filter_hd filter_update_country)

lemma upsert_city_id:
  "snd (upsert_city n city country rows) =
     (case filter (\<lambda>r. city_name r = city) rows of [] \<Rightarrow> n | r # _ \<Rightarrow> city_id r)"
  by (cases "filter (\<lambda>r. city_name r = city) rows")
    (simp_all add: upsert_city_def find_filter_hd)

lemma city_rows_after_upsert:
  "city_rows city (working (after_upsert city s)) =
     (if city_rows city (working s) = []
      then [\<lparr>city_id = city_id_seq s, city_name = city, country_name = country_of city\<rparr>]
      else map (\<lambda>r. r\<lparr>country_name := country_of city\<rparr>) (city_rows city (working s)))"
  by (simp add: city_rows_def upsert_city_rows)

lemma city_rows_le_one:
  "distinct (map city_name (dim_city d)) \<Longrightarrow> length (city_rows c d) \<le> 1"
proof -
  assume d: "distinct (map city_name (dim_city d))"
  show ?thesis
  proof (cases "c \<in> set (map city_name (dim_city d))")
    case True
    with d have "length (filter (\<lambda>r. city_name r = c) (dim_city d)) = 1"
      by (rule distinct_count_one)
    then show ?thesis by (simp add: city_rows_def)
  next
    case False
    then have "city_rows c d = []" by (simp add: city_rows_empty_iff)
    then show ?thesis by simp
  qed
qed

lemma city_rows_one_after_upsert:
  "wf_db (working s) \<Longrightarrow> length (city_rows city (working (after_upsert city s))) = 1"
  by (simp add: city_rows_def wf_db_def upsert_city_one_row)

text \<open>The identifiers of the city's rows after its upsert: the one the upsert returns.\<close>

lemma city_ids_after_upsert:
  assumes "wf_db (working s)"
  shows "map city_id (city_rows city (working (after_upsert city s))) = [upsert_id city s]"
proof (cases "city_rows city (working s)")
  case Nil
  then have "upsert_id city s = city_id_seq s"
    by (simp add: upsert_id_def upsert_city_id city_rows_def)
  with Nil show ?thesis
    unfolding city_rows_after_upsert by simp
next
  case (Cons r rs)
  have "length (city_rows city (working s)) \<le> 1"
    using assms by (intro city_rows_le_one) (simp add: wf_db_def)
  with Cons have rows: "city_rows city (working s) = [r]" by simp
  then have "upsert_id city s = city_id r"
    by (simp add: upsert_id_def upsert_city_id city_rows_def)
  with rows show ?thesis
    unfolding city_rows_after_upsert by simp
qed

lemma snapshots_of_after_upsert:
  assumes "conn_wf s"
  shows "snapshots_of city (working (after_upsert city s)) = snapshots_of city (working s)"
proof (cases "city_rows city (working s)")
  case Nil
  have below: "ids_below (city_id_seq s) (working s)" and pe: "parent_exists (working s)"
    using assms by (simp_all add: conn_wf_def wf_db_def)
  have "\<forall>x \<in> set (fact_weather_snapshot (working s)). snap_city_id x \<noteq> city_id_seq s"
    using pe ids_below_fresh [OF below] unfolding parent_exists_def by metis
  then have "filter (\<lambda>x. snap_city_id x = city_id_seq s) (fact_weather_snapshot (working s)) = []"
    by (simp add: filter_empty_conv)
  with Nil show ?thesis
    by (simp add: snapshots_of_def city_rows_after_upsert)
next
  case (Cons r rs)
  then show ?thesis
    by (simp add: snapshots_of_def city_rows_after_upsert o_def)
qed

lemma snapshots_of_after_insert:
  assumes wf: "conn_wf s" and id: "snap_city_id sn = upsert_id city s"
  shows "snapshots_of city (working (after_insert sn (after_upsert city s))) =
     (if fetch_date sn \<in> set (map fetch_date (snapshots_of city (working s)))
      then snapshots_of city (working s)
      else snapshots_of city (working s) @ [sn])"
proof -
  let ?snaps = "fact_weather_snapshot (working s)"
  from wf have w: "wf_db (working s)" by (simp add: conn_wf_def)
  have ids: "map city_id (city_rows city (working (after_upsert city s))) = [upsert_id city s]"
    using w by (rule city_ids_after_upsert)
  have old: "snapshots_of city (working s) =
      filter (\<lambda>x. snap_city_id x = upsert_id city s) ?snaps"
    using snapshots_of_after_upsert [OF wf, of city] ids
    by (simp add: snapshots_of_def)
  have key: "conflict_key sn \<in> set (map conflict_key ?snaps) \<longleftrightarrow>
      fetch_date sn \<in> set (map fetch_date (snapshots_of city (working s)))"
  proof
    assume "conflict_key sn \<in> set (map conflict_key ?snaps)"
    then obtain x where "x \<in> set ?snaps" "conflict_key x = conflict_key sn" by auto
    then have "x \<in> set (filter (\<lambda>x. snap_city_id x = upsert_id city s) ?snaps)"
      "fetch_date x = fetch_date sn"
      using id by (simp_all add: conflict_key_def)
    then show "fetch_date sn \<in> set (map fetch_date (snapshots_of city (working s)))"
      unfolding old by (metis image_eqI set_map)
  next
    assume "fetch_date sn \<in> set (map fetch_date (snapshots_of city (working s)))"
    then obtain x where "x \<in> set ?snaps" "snap_city_id x = upsert_id city s"
      "fetch_date x = fetch_date sn"
      unfolding old by auto
    then have "conflict_key x = conflict_key sn"
      using id by (simp add: conflict_key_def)
    with \<open>x \<in> set ?snaps\<close> show "conflict_key sn \<in> set (map conflict_key ?snaps)"
      by (metis image_eqI set_map)
  qed
  have "snapshots_of city (working (after_insert sn (after_upsert city s))) =
      filter (\<lambda>x. snap_city_id x = upsert_id city s) (insert_snapshot sn ?snaps)"
    using ids by (simp add: snapshots_of_def)
  also have "\<dots> = (if conflict_key sn \<in> set (map conflict_key ?snaps)
      then filter (\<lambda>x. snap_city_id x = upsert_id city s) ?snaps
      else filter (\<lambda>x. snap_city_id x = upsert_id city s) ?snaps @ [sn])"
    using id by (simp add: insert_snapshot_def)
  finally show ?thesis unfolding key old by simp
qed

lemma seq_mono_per_city: "city_id_seq s \<le> city_id_seq (snd (per_city city ev s))"
  by (cases rule: per_city_cases [of ev city s]) auto

lemma seq_mono_loop: "city_id_seq s \<le> city_id_seq (snd (weather_loop script s))"
proof (induction script arbitrary: s)
  case Nil
  show ?case by simp
next
  case (Cons a script)
  obtain city ev where a: "a = (city, ev)" by (cases a)
  have "city_id_seq s \<le> city_id_seq (snd (per_city city ev s))"
    by (rule seq_mono_per_city)
  also have "\<dots> \<le> city_id_seq (snd (weather_loop script (snd (per_city city ev s))))"
    by (rule Cons.IH)
  finally show ?case
    unfolding a weather_loop_step using seq_mono_per_city [of s city ev] by simp
qed

lemma per_city_loads_state:
  assumes wf: "conn_wf s" and lo: "loads ev"
  obtains sn where
    "snapshot_for (upsert_id city s) ev = Some sn"
    "fst (per_city city ev s) = Normal"
    "working (snd (per_city city ev s)) = committed (snd (per_city city ev s))"
    "city_rows city (committed (snd (per_city city ev s))) =
       (if city_rows city (working s) = []
        then [\<lparr>city_id = city_id_seq s, city_name = city, country_name = country_of city\<rparr>]
        else map (\<lambda>r. r\<lparr>country_name := country_of city\<rparr>) (city_rows city (working s)))"
    "map city_id (city_rows city (committed (snd (per_city city ev s)))) = [upsert_id city s]"
    "snapshots_of city (committed (snd (per_city city ev s))) =
       (if db_time ev \<in> set (map fetch_date (snapshots_of city (working s)))
        then snapshots_of city (working s)
        else snapshots_of city (working s) @ [sn])"
proof -
  from lo obtain sn where sf: "snapshot_for (upsert_id city s) ev = Some sn"
    and p: "per_city city ev s =
       (Normal, (after_insert sn (after_upsert city s))
          \<lparr>committed := working (after_insert sn (after_upsert city s)),
           log := log s @ [LoadedWeather city (country_of city)]\<rparr>)"
    by (rule per_city_loads_row [of ev city s])
  from sf have id: "snap_city_id sn = upsert_id city s" and t: "fetch_date sn = db_time ev"
    using snapshot_for_ids by blast+
  from wf have w: "wf_db (working s)" by (simp add: conn_wf_def)
  have c: "committed (snd (per_city city ev s)) = working (after_insert sn (after_upsert city s))"
    using p by simp
  have 1: "fst (per_city city ev s) = Normal" using p by simp
  have 2: "working (snd (per_city city ev s)) = committed (snd (per_city city ev s))"
    using p by simp
  have 3: "city_rows city (committed (snd (per_city city ev s))) =
       (if city_rows city (working s) = []
        then [\<lparr>city_id = city_id_seq s, city_name = city, country_name = country_of city\<rparr>]
        else map (\<lambda>r. r\<lparr>country_name := country_of city\<rparr>) (city_rows city (working s)))"
    unfolding c by (simp add: city_rows_after_upsert)
  have 4: "map city_id (city_rows city (committed (snd (per_city city ev s)))) = [upsert_id city s]"
    unfolding c using city_ids_after_upsert [OF w, of city] by simp
  have 5: "snapshots_of city (committed (snd (per_city city ev s))) =
       (if db_time ev \<in> set (map fetch_date (snapshots_of city (working s)))
        then snapshots_of city (working s)
        else snapshots_of city (working s) @ [sn])"
    unfolding c using snapshots_of_after_insert [OF wf id] t by simp
  show thesis by (rule that [OF sf 1 2 3 4 5])
qed

lemma settled_same: "working s = committed s \<Longrightarrow> settled c s"
  by (simp add: settled_def)

text \<open>
  A run over \<open>pre @ (city, ev) # post\<close> in which the loop reaches \<open>city\<close>, \<open>city\<close> loads
  and no other iteration is about \<open>city\<close>: what the committed tables hold for \<open>city\<close>
  at the end, however \<open>post\<close> ends.
\<close>

lemma loaded_city_run:
  assumes wf: "conn_wf s" and same: "working s = committed s"
    and pre: "city \<notin> fst ` set pre" and post: "city \<notin> fst ` set post"
    and reach: "fst (weather_loop pre s) = Normal" and lo: "loads ev"
  obtains sn i where
    "city_id_seq s \<le> i"
    "city_rows city (committed (snd (weather_loop (pre @ (city, ev) # post) s))) =
       (if city_rows city (committed s) = []
        then [\<lparr>city_id = i, city_name = city, country_name = country_of city\<rparr>]
        else map (\<lambda>r. r\<lparr>country_name := country_of city\<rparr>) (city_rows city (committed s)))"
    "snapshot_for
       (hd (map city_id (city_rows city (committed (snd (weather_loop (pre @ (city, ev) # post) s))))))
       ev = Some sn"
    "snapshots_of city (committed (snd (weather_loop (pre @ (city, ev) # post) s))) =
       (if db_time ev \<in> set (map fetch_date (snapshots_of city (committed s)))
        then snapshots_of city (committed s)
        else snapshots_of city (committed s) @ [sn])"
proof -
  let ?s1 = "snd (weather_loop pre s)"
  let ?s2 = "snd (per_city city ev ?s1)"
  let ?end = "snd (weather_loop (pre @ (city, ev) # post) s)"
  have wf1: "conn_wf ?s1" using wf by (rule conn_wf_loop)
  have wf2: "conn_wf ?s2" using wf1 by (rule conn_wf_per_city)
  have f1: "settled city ?s1" "city_rows city (committed ?s1) = city_rows city (committed s)"
    "snapshots_of city (committed ?s1) = snapshots_of city (committed s)"
    using weather_loop_frame [OF pre wf settled_same [OF same]] by simp_all
  then have w1: "city_rows city (working ?s1) = city_rows city (committed s)"
    "snapshots_of city (working ?s1) = snapshots_of city (committed s)"
    by (simp_all add: settled_def)
  from wf1 lo obtain sn where
    sf: "snapshot_for (upsert_id city ?s1) ev = Some sn"
    and n2: "fst (per_city city ev ?s1) = Normal"
    and same2: "working ?s2 = committed ?s2"
    and rows: "city_rows city (committed ?s2) =
       (if city_rows city (working ?s1) = []
        then [\<lparr>city_id = city_id_seq ?s1, city_name = city, country_name = country_of city\<rparr>]
        else map (\<lambda>r. r\<lparr>country_name := country_of city\<rparr>) (city_rows city (working ?s1)))"
    and ids: "map city_id (city_rows city (committed ?s2)) = [upsert_id city ?s1]"
    and snaps: "snapshots_of city (committed ?s2) =
       (if db_time ev \<in> set (map fetch_date (snapshots_of city (working ?s1)))
        then snapshots_of city (working ?s1)
        else snapshots_of city (working ?s1) @ [sn])"
    by (rule per_city_loads_state [of ?s1 ev city])
  have final: "weather_loop (pre @ (city, ev) # post) s = weather_loop post ?s2"
    using reach n2 unfolding weather_loop_append weather_loop_step by simp
  have f2: "city_rows city (committed ?end) = city_rows city (committed ?s2)"
    "snapshots_of city (committed ?end) = snapshots_of city (committed ?s2)"
    unfolding final using weather_loop_frame [OF post wf2 settled_same [OF same2]] by simp_all
  have a: "city_id_seq s \<le> city_id_seq ?s1" by (rule seq_mono_loop)
  have b: "city_rows city (committed ?end) =
       (if city_rows city (committed s) = []
        then [\<lparr>city_id = city_id_seq ?s1, city_name = city, country_name = country_of city\<rparr>]
        else map (\<lambda>r. r\<lparr>country_name := country_of city\<rparr>) (city_rows city (committed s)))"
    using rows f2(1) w1(1) by simp
  have c: "snapshot_for (hd (map city_id (city_rows city (committed ?end)))) ev = Some sn"
    using sf ids f2(1) by simp
  have d: "snapshots_of city (committed ?end) =
       (if db_time ev \<in> set (map fetch_date (snapshots_of city (committed s)))
        then snapshots_of city (committed s)
        else snapshots_of city (committed s) @ [sn])"
    using snaps f2(2) w1(2) by simp
  show thesis by (rule that [OF a b c d])
qed

subsection \<open>What is committed stays\<close>

lemma persists_refl [simp]: "persists d d"
  by (simp add: persists_def)

lemma persists_trans: "persists a b \<Longrightarrow> persists b c \<Longrightarrow> persists a c"
  unfolding persists_def by blast

lemma keys_grow:
  "set (map (\<lambda>r. (city_id r, city_name r)) rows)
     \<subseteq> set (map (\<lambda>r. (city_id r, city_name r)) (fst (upsert_city n city country rows)))"
  by (auto simp: upsert_city_keys)

lemma persists_upsert: "persists (working s) (working (after_upsert city s))"
  using keys_grow [of "dim_city (working s)" "city_id_seq s" city "country_of city"]
  by (simp add: persists_def)

lemma persists_insert: "persists (working s) (working (after_insert sn s))"
  using set_insert_snapshot(2) [of "fact_weather_snapshot (working s)" sn]
  by (simp add: persists_def)

lemma persists_per_city:
  assumes "persists (committed s) (working s)"
  shows "persists (committed s) (committed (snd (per_city city ev s))) \<and>
         persists (committed (snd (per_city city ev s))) (working (snd (per_city city ev s)))"
proof -
  have ins: "persists (committed s) (working (after_insert sn (after_upsert city s)))" for sn
    using assms persists_upsert [of s city] persists_insert [of "after_upsert city s" sn]
    by (blast intro: persists_trans)
  show ?thesis
  proof (cases rule: per_city_cases [of ev city s])
    case skip
    with assms show ?thesis by simp
  next
    case (rollback t)
    then show ?thesis by auto
  next
    case broken
    with assms show ?thesis by simp
  next
    case (pending out)
    with assms persists_upsert [of s city] show ?thesis
      by (auto intro: persists_trans)
  next
    case (inserted sn)
    with ins [of sn] show ?thesis by simp
  next
    case (commit sn)
    with ins [of sn] show ?thesis by simp
  qed
qed

lemma persists_loop:
  "persists (committed s) (working s) \<Longrightarrow>
   persists (committed s) (committed (snd (weather_loop script s))) \<and>
   persists (committed (snd (weather_loop script s))) (working (snd (weather_loop script s)))"
proof (induction script arbitrary: s)
  case Nil
  then show ?case by simp
next
  case (Cons a script)
  obtain city ev where a: "a = (city, ev)" by (cases a)
  let ?s' = "snd (per_city city ev s)"
  have step: "persists (committed s) (committed ?s')" "persists (committed ?s') (working ?s')"
    using persists_per_city [OF Cons.prems, of city ev] by simp_all
  show ?case
  proof (cases "fst (per_city city ev s) = Normal")
    case True
    with Cons.IH [OF step(2)] step(1) show ?thesis
      unfolding a weather_loop_step by (auto intro: persists_trans)
  next
    case False
    with step show ?thesis unfolding a weather_loop_step by simp
  qed
qed

subsection \<open>Iterations that do not commit\<close>

lemma no_commit_loop:
  "\<forall>x \<in> set script. \<not> loads (snd x) \<Longrightarrow> committed (snd (weather_loop script s)) = committed s"
proof (induction script arbitrary: s)
  case Nil
  then show ?case by simp
next
  case (Cons a script)
  obtain city ev where a: "a = (city, ev)" by (cases a)
  from Cons.prems a have nl: "\<not> loads ev" and rest: "\<forall>x \<in> set script. \<not> loads (snd x)"
    by simp_all
  have "committed (snd (per_city city ev s)) = committed s"
    using nl by (rule per_city_not_loads)
  with Cons.IH [OF rest] show ?case
    unfolding a weather_loop_step by simp
qed

lemma per_city_db_error:
  assumes "db_error ev" and "\<not> rollback_fails ev"
  shows "per_city city ev s =
     (Normal, rolled_back city (if upsert_fails ev then s else after_upsert city s))"
proof -
  from assms(1) have g: "geocoded ev" by (simp add: db_error_def)
  show ?thesis
  proof (cases "upsert_fails ev")
    case True
    with assms(2) show ?thesis by (simp add: per_city_geocoded [OF g] on_db_error_simps)
  next
    case False
    with assms(1) have w: "weather_ok ev" and f: "insert_fails ev \<or> commit_fails ev"
      by (simp_all add: db_error_def)
    from w obtain status body sn where
      "weather ev = WeatherResponse status body" "status = 200"
      "weather_row (upsert_id city s) (db_time ev) body = Inr sn"
      by (rule weather_ok_row)
    with f False assms(2) show ?thesis
      by (auto simp: per_city_geocoded [OF g] on_db_error_simps)
  qed
qed

lemma per_city_rollback_raises:
  assumes "db_error ev" and "rollback_fails ev"
  shows "fst (per_city city ev s) = Raised DatabaseError \<and>
         committed (snd (per_city city ev s)) = committed s \<and>
         log (snd (per_city city ev s)) = log s"
proof -
  from assms(1) have g: "geocoded ev" by (simp add: db_error_def)
  show ?thesis
  proof (cases "upsert_fails ev")
    case True
    with assms(2) show ?thesis by (simp add: per_city_geocoded [OF g] on_db_error_simps)
  next
    case False
    with assms(1) have w: "weather_ok ev" and f: "insert_fails ev \<or> commit_fails ev"
      by (simp_all add: db_error_def)
    from w obtain status body sn where
      "weather ev = WeatherResponse status body" "status = 200"
      "weather_row (upsert_id city s) (db_time ev) body = Inr sn"
      by (rule weather_ok_row)
    with f False assms(2) show ?thesis
      by (auto simp: per_city_geocoded [OF g] on_db_error_simps)
  qed
qed

lemma fetch_and_load_weather_outcome:
  "fst (fetch_and_load_weather script d) =
     fst (weather_loop script (connect d))"
  by (simp add: fetch_and_load_weather_def split: prod.splits outcome.splits)

lemma insert_snapshot_conflict:
  "conflict_key sn \<in> set (map conflict_key rows) \<Longrightarrow> insert_snapshot sn rows = rows"
  by (simp add: insert_snapshot_def)

lemma persists_names:
  "persists d d' \<Longrightarrow> set (map city_name (dim_city d)) \<subseteq> set (map city_name (dim_city d'))"
proof
  fix c
  assume p: "persists d d'" and "c \<in> set (map city_name (dim_city d))"
  then obtain r where "r \<in> set (dim_city d)" "city_name r = c" by auto
  then have "(city_id r, c) \<in> set (map (\<lambda>r. (city_id r, city_name r)) (dim_city d))"
    by force
  with p have "(city_id r, c) \<in> set (map (\<lambda>r. (city_id r, city_name r)) (dim_city d'))"
    unfolding persists_def by blast
  then show "c \<in> set (map city_name (dim_city d'))" by force
qed

lemma pending_row:
  "city \<in> set (map city_name (dim_city (working (after_upsert city s))))"
  by (simp add: upsert_city_names)

lemma pending_made_durable:
  assumes "loads later_ev"
  shows "city \<in> set (map city_name
           (dim_city (committed (snd (per_city later_city later_ev (after_upsert city s))))))"
proof -
  let ?s = "after_upsert city s"
  from assms obtain sn where
    p: "per_city later_city later_ev ?s =
       (Normal, (after_insert sn (after_upsert later_city ?s))
          \<lparr>committed := working (after_insert sn (after_upsert later_city ?s)),
           log := log ?s @ [LoadedWeather later_city (country_of later_city)]\<rparr>)"
    by (rule per_city_loads [of later_ev later_city ?s])
  have "persists (working ?s) (working (after_insert sn (after_upsert later_city ?s)))"
    using persists_upsert [of ?s later_city] persists_insert [of "after_upsert later_city ?s" sn]
    by (rule persists_trans)
  then show ?thesis
    using p pending_row [of city s] persists_names by fastforce
qed

lemma parent_exists_loop_imp:
  "parent_exists (committed s) \<and> parent_exists (working s) \<longrightarrow>
      parent_exists (committed (snd (weather_loop script s))) \<and>
      parent_exists (working (snd (weather_loop script s)))"
  using parent_exists_loop [of s script] by blast

lemma parent_exists_warehouse:
  "parent_exists d \<longrightarrow> parent_exists (fst (snd (fetch_and_load_weather script d)))"
proof
  assume "parent_exists d"
  then have "parent_exists (committed (snd (weather_loop script (connect d))))"
    using parent_exists_loop [of "(connect d)" script]
    by simp
  then show "parent_exists (fst (snd (fetch_and_load_weather script d)))"
    by (simp only: fetch_and_load_weather_committed)
qed

lemma new_snapshots_have_parent:
  "\<forall>sn \<in> set (fact_weather_snapshot (working (snd (per_city city ev s)))).
      sn \<notin> set (fact_weather_snapshot (working s)) \<longrightarrow>
      sn \<notin> set (fact_weather_snapshot (committed s)) \<longrightarrow>
      snap_city_id sn = upsert_id city s \<and>
      (upsert_id city s, city) \<in> set (map (\<lambda>r. (city_id r, city_name r))
            (dim_city (working (snd (per_city city ev s)))))"
  using new_snapshot_parent [of _ city ev s] by blast

subsection \<open>Evaluating the loader on given inputs\<close>

lemmas eval_defs = per_city_def fetch_coordinates_def truthy_def country_of_def strip_def
  COUNTRY_MAPPING_def upsert_city_def sequence_start_def weather_row_def weather_main_of_def
  weather_desc_def descriptions_def first_word_def py_split_def is_space_def whitespace_def
  insert_snapshot_def conflict_key_def on_db_error_def fetch_and_load_weather_def
  ev_ok_def sample_current_def empty_db_def connect_def sample_script_def Let_def

lemma ev_ok_loads: "loads (ev_ok t)"
  by (simp add: loads_def geocoded_def weather_ok_def db_ok_def eval_defs)

lemma wf_empty_db: "wf_db empty_db"
  by (simp add: wf_db_def parent_exists_def empty_db_def)

lemma conn_wf_connect: "wf_db d \<Longrightarrow> conn_wf (connect d)"
  by (simp add: conn_wf_def ids_below_def sequence_start_above)

subsection \<open>The happiness loader and the country alias\<close>

lemma execute_rows_no_fault:
  "execute_rows None rows n tbl =
     (Normal, foldl (\<lambda>t r. upsert_country r t) tbl rows, n + length rows)"
  by (induction rows arbitrary: n tbl) simp_all

lemma split_on_no_sep: "sep \<notin> set c \<Longrightarrow> split_on sep c = [c]"
  by (induction c) auto

lemma split_on_append:
  "\<exists>ws. ws \<noteq> [] \<and> split_on sep (n @ sep # c) = ws @ split_on sep c"
proof (induction n)
  case Nil
  have "split_on sep ([] @ sep # c) = [[]] @ split_on sep c" by simp
  then show ?case by blast
next
  case (Cons a n)
  then obtain w ws where ws: "split_on sep (n @ sep # c) = (w # ws) @ split_on sep c"
    by (metis neq_Nil_conv)
  show ?case
  proof (cases "a = sep")
    case True
    with ws have "split_on sep ((a # n) @ sep # c) = ([] # w # ws) @ split_on sep c" by simp
    then show ?thesis by blast
  next
    case False
    with ws have "split_on sep ((a # n) @ sep # c) = ((a # w) # ws) @ split_on sep c" by simp
    then show ?thesis by blast
  qed
qed

lemma split_on_last:
  assumes "sep \<notin> set c"
  shows "last (split_on sep (n @ sep # c)) = c"
proof -
  obtain ws where "split_on sep (n @ sep # c) = ws @ split_on sep c"
    using split_on_append by blast
  then show ?thesis using split_on_no_sep [OF assms] by simp
qed

subsection \<open>A city loaded later in the run\<close>

lemmas sample_defs = ev_insert_fails_def ev_connection_lost_def ev_request_raises_def

lemma snapshots_of_no_rows: "city_rows c d = [] \<Longrightarrow> snapshots_of c d = []"
  by (simp add: snapshots_of_def)

text \<open>
  A city that loads after a rollback: when the loop reaches it from a well-formed
  connection with nothing pending, it ends with one row and at least one snapshot.
\<close>

lemma later_city_still_loads:
  assumes wf: "conn_wf t" and same: "working t = committed t"
    and pre: "c \<notin> fst ` set pre" and post: "c \<notin> fst ` set post"
    and reach: "fst (weather_loop pre t) = Normal" and lo: "loads e"
  shows "length (city_rows c (committed (snd (weather_loop (pre @ (c, e) # post) t)))) = 1 \<and>
         snapshots_of c (committed (snd (weather_loop (pre @ (c, e) # post) t))) \<noteq> []"
proof -
  let ?E = "committed (snd (weather_loop (pre @ (c, e) # post) t))"
  obtain sn i where
    rows: "city_rows c ?E =
       (if city_rows c (committed t) = []
        then [\<lparr>city_id = i, city_name = c, country_name = country_of c\<rparr>]
        else map (\<lambda>r. r\<lparr>country_name := country_of c\<rparr>) (city_rows c (committed t)))"
    and snaps: "snapshots_of c ?E =
       (if db_time e \<in> set (map fetch_date (snapshots_of c (committed t)))
        then snapshots_of c (committed t)
        else snapshots_of c (committed t) @ [sn])"
    using loaded_city_run [OF wf same pre post reach lo] by metis
  have le: "length (city_rows c (committed t)) \<le> 1"
    using wf by (intro city_rows_le_one) (simp add: conn_wf_def wf_db_def)
  have one: "length (city_rows c ?E) = 1"
  proof (cases "city_rows c (committed t) = []")
    case True
    then show ?thesis using rows by simp
  next
    case False
    then have "length (city_rows c (committed t)) = 1"
      using le by (cases "city_rows c (committed t)") simp_all
    with False rows show ?thesis by simp
  qed
  have "snapshots_of c ?E \<noteq> []"
  proof (cases "db_time e \<in> set (map fetch_date (snapshots_of c (committed t)))")
    case True
    then have "snapshots_of c (committed t) \<noteq> []" by auto
    with True snaps show ?thesis by simp
  next
    case False
    with snaps show ?thesis by simp
  qed
  with one show ?thesis by simp
qed

section \<open>The claims\<close>

text \<open>
  Claim C3. For every integer weather code the description is the table's entry when
  the code is mapped and \<open>Weather code N\<close> otherwise; the category is \<open>Clouds\<close>
  exactly for the codes 1 to 3 and otherwise the first word of the description, which
  always exists. Codes 1, 2, 3 give \<open>Clouds\<close>, code 0 gives \<open>Clear\<close>, code 999
  gives \<open>Weather code 999\<close> and \<open>Weather\<close>.
\<close>

theorem weather_code_description_and_category:
  "(code \<in> set (map fst descriptions) \<longrightarrow> (code, weather_desc code) \<in> set descriptions) \<and>
   (code \<notin> set (map fst descriptions) \<longrightarrow> weather_desc code = ''Weather code '' @ str_int code) \<and>
   (weather_main_of code = Inr ''Clouds'' \<longleftrightarrow> 1 \<le> code \<and> code \<le> 3) \<and>
   (\<not> (1 \<le> code \<and> code \<le> 3) \<longrightarrow>
      weather_main_of code =
        Inr (takeWhile (\<lambda>c. \<not> is_space c) (dropWhile is_space (weather_desc code)))) \<and>
   weather_main_of 1 = Inr ''Clouds'' \<and> weather_main_of 2 = Inr ''Clouds'' \<and>
   weather_main_of 3 = Inr ''Clouds'' \<and> weather_main_of 0 = Inr ''Clear'' \<and>
   weather_desc 999 = ''Weather code 999'' \<and> weather_main_of 999 = Inr ''Weather''"
proof -
  have a: "code \<in> set (map fst descriptions) \<longrightarrow> (code, weather_desc code) \<in> set descriptions"
    by (auto simp: weather_desc_cases descriptions_def)
  have b: "code \<notin> set (map fst descriptions) \<longrightarrow> weather_desc code = ''Weather code '' @ str_int code"
    by (simp add: weather_desc_cases descriptions_def)
  have c: "weather_main_of code = Inr ''Clouds'' \<longleftrightarrow> 1 \<le> code \<and> code \<le> 3"
    using weather_main_total [of code] by auto
  have d: "\<not> (1 \<le> code \<and> code \<le> 3) \<longrightarrow>
      weather_main_of code =
        Inr (takeWhile (\<lambda>c. \<not> is_space c) (dropWhile is_space (weather_desc code)))"
    using weather_main_total [of code]
    by (auto simp: weather_main_of_def first_word_eq split: if_splits)
  have e: "weather_main_of 1 = Inr ''Clouds''" "weather_main_of 2 = Inr ''Clouds''"
    "weather_main_of 3 = Inr ''Clouds''"
    by (simp_all add: weather_main_of_def)
  have f: "weather_main_of 0 = Inr ''Clear''"
    by (simp add: weather_main_of_def weather_desc_cases first_word_eq is_space_def whitespace_def)
  have g: "weather_desc 999 = ''Weather code 999''"
    by (simp add: weather_desc_cases str_int_def str_nat.simps)
  have h: "weather_main_of 999 = Inr ''Weather''"
    by (simp add: weather_main_of_def weather_desc_cases first_word_eq is_space_def
        whitespace_def)
  from a b c d e f g h show ?thesis by blast
qed

theorem weather_code_description_and_category_witness:
  "weather_desc 48 = ''Depositing rime fog'' \<and> weather_main_of 48 = Inr ''Depositing'' \<and>
   weather_desc (-7) = ''Weather code -7'' \<and> weather_main_of (-7) = Inr ''Weather''"
  using weather_code_description_and_category [of 48]
    weather_code_description_and_category [of "-7"]
  by (simp add: descriptions_def str_int_def str_nat.simps is_space_def whitespace_def)

text \<open>
  Claim C2. A good geocoding and a good weather fetch do not by themselves leave a row:
  when the database refuses the insert of the snapshot, the handler rolls the upsert
  back, and the run ends normally with no city row and no snapshot for that city.
\<close>

theorem good_fetch_failed_insert_leaves_no_row:
  "geocoded ev_insert_fails \<and> weather_ok ev_insert_fails \<and>
   fetch_and_load_weather [(''Paris,France'', ev_insert_fails)] empty_db =
     (Normal, empty_db, [ErrorSkipping ''Paris,France'', EtlComplete]) \<and>
   city_rows ''Paris,France''
     (fst (snd (fetch_and_load_weather [(''Paris,France'', ev_insert_fails)] empty_db))) = [] \<and>
   snapshots_of ''Paris,France''
     (fst (snd (fetch_and_load_weather [(''Paris,France'', ev_insert_fails)] empty_db))) = []"
  by (simp add: geocoded_def weather_ok_def city_rows_def snapshots_of_def sample_defs eval_defs)

text \<open>
  Claim C2, as it holds. Take a run of the weather loader on a well-formed warehouse and
  a city that the loop reaches (the cities before it end normally) and that no other
  iteration of the run names. When its geocoding gave coordinates that pass the loader's
  test, its weather fetch gave a 200 response with every field, and the database
  accepted its three statements (\<open>loads\<close>), then, however the cities after it end, the
  warehouse after the run holds exactly one \<open>dim_city\<close> row of that name: when it held
  one before, that row with its identifier, its country overwritten in place; when it
  held none, a new row with the display country and an identifier no row had. Its
  snapshots are those it had before plus exactly one, the row built from this response
  for that identifier, unless a snapshot with the same conflict key (city, fetch time)
  was there, and then they are those it had: on a first run exactly one snapshot. The
  warehouse stays well-formed, and every earlier city row keeps its identifier and every
  earlier snapshot stays (\<open>persists\<close>).
\<close>

theorem loaded_city_one_row_and_snapshot:
  assumes wf: "wf_db d"
    and pre: "city \<notin> fst ` set pre" and post: "city \<notin> fst ` set post"
    and reach: "fst (fetch_and_load_weather pre d) = Normal"
    and lo: "loads ev"
  shows "length (city_rows city (fst (snd (fetch_and_load_weather (pre @ (city, ev) # post) d)))) = 1 \<and>
         (city_rows city d \<noteq> [] \<longrightarrow>
            city_rows city (fst (snd (fetch_and_load_weather (pre @ (city, ev) # post) d))) =
              map (\<lambda>r. r\<lparr>country_name := country_of city\<rparr>) (city_rows city d)) \<and>
         (city_rows city d = [] \<longrightarrow>
            (\<exists>i. i \<notin> set (map city_id (dim_city d)) \<and>
               city_rows city (fst (snd (fetch_and_load_weather (pre @ (city, ev) # post) d))) =
                 [\<lparr>city_id = i, city_name = city, country_name = country_of city\<rparr>])) \<and>
         (\<exists>sn. snapshot_for
                 (hd (map city_id (city_rows city
                    (fst (snd (fetch_and_load_weather (pre @ (city, ev) # post) d))))))
                 ev = Some sn \<and>
               snapshots_of city (fst (snd (fetch_and_load_weather (pre @ (city, ev) # post) d))) =
                 (if db_time ev \<in> set (map fetch_date (snapshots_of city d))
                  then snapshots_of city d
                  else snapshots_of city d @ [sn])) \<and>
         (city_rows city d = [] \<longrightarrow>
            length (snapshots_of city
              (fst (snd (fetch_and_load_weather (pre @ (city, ev) # post) d)))) = 1) \<and>
         wf_db (fst (snd (fetch_and_load_weather (pre @ (city, ev) # post) d))) \<and>
         persists d (fst (snd (fetch_and_load_weather (pre @ (city, ev) # post) d)))"
proof -
  let ?s = "connect d"
  let ?D = "fst (snd (fetch_and_load_weather (pre @ (city, ev) # post) d))"
  have D: "?D = committed (snd (weather_loop (pre @ (city, ev) # post) ?s))"
    by (rule fetch_and_load_weather_committed)
  have cwf: "conn_wf ?s" using wf by (rule conn_wf_connect)
  have same: "working ?s = committed ?s" by simp
  have reach': "fst (weather_loop pre ?s) = Normal"
    using reach by (simp add: fetch_and_load_weather_outcome)
  let ?E = "committed (snd (weather_loop (pre @ (city, ev) # post) ?s))"
  obtain sn i where
    i0: "city_id_seq ?s \<le> i"
    and rows0: "city_rows city ?E =
       (if city_rows city (committed ?s) = []
        then [\<lparr>city_id = i, city_name = city, country_name = country_of city\<rparr>]
        else map (\<lambda>r. r\<lparr>country_name := country_of city\<rparr>) (city_rows city (committed ?s)))"
    and sf0: "snapshot_for (hd (map city_id (city_rows city ?E))) ev = Some sn"
    and snaps0: "snapshots_of city ?E =
       (if db_time ev \<in> set (map fetch_date (snapshots_of city (committed ?s)))
        then snapshots_of city (committed ?s)
        else snapshots_of city (committed ?s) @ [sn])"
    by (rule loaded_city_run [OF cwf same pre post reach' lo])
  have i: "sequence_start (dim_city d) \<le> i" using i0 by simp
  have rows: "city_rows city ?D =
       (if city_rows city d = []
        then [\<lparr>city_id = i, city_name = city, country_name = country_of city\<rparr>]
        else map (\<lambda>r. r\<lparr>country_name := country_of city\<rparr>) (city_rows city d))"
    unfolding D using rows0 by simp
  have sf: "snapshot_for (hd (map city_id (city_rows city ?D))) ev = Some sn"
    unfolding D using sf0 by simp
  have snaps: "snapshots_of city ?D =
       (if db_time ev \<in> set (map fetch_date (snapshots_of city d))
        then snapshots_of city d
        else snapshots_of city d @ [sn])"
    unfolding D using snaps0 by simp
  have le: "length (city_rows city d) \<le> 1"
    using wf by (intro city_rows_le_one) (simp add: wf_db_def)
  have one: "length (city_rows city ?D) = 1"
  proof (cases "city_rows city d = []")
    case True
    then show ?thesis using rows by simp
  next
    case False
    then have "length (city_rows city d) = 1"
      using le by (cases "city_rows city d") simp_all
    with False rows show ?thesis by simp
  qed
  have fresh: "i \<notin> set (map city_id (dim_city d))"
  proof
    assume "i \<in> set (map city_id (dim_city d))"
    then obtain r where "r \<in> set (dim_city d)" "city_id r = i" by auto
    then have "i < sequence_start (dim_city d)"
      using sequence_start_above by blast
    with i show False by simp
  qed
  have first: "length (snapshots_of city ?D) = 1" if "city_rows city d = []"
    using snaps snapshots_of_no_rows [OF that] by simp
  have "conn_wf (snd (weather_loop (pre @ (city, ev) # post) ?s))"
    using cwf by (rule conn_wf_loop)
  then have wf': "wf_db ?D" unfolding D by (simp add: conn_wf_def)
  have pers: "persists d ?D"
    unfolding D using persists_loop [of ?s "pre @ (city, ev) # post"] by simp
  have newrow: "\<exists>i. i \<notin> set (map city_id (dim_city d)) \<and>
      city_rows city ?D = [\<lparr>city_id = i, city_name = city, country_name = country_of city\<rparr>]"
    if "city_rows city d = []"
    using that rows fresh by auto
  have upd: "city_rows city ?D = map (\<lambda>r. r\<lparr>country_name := country_of city\<rparr>) (city_rows city d)"
    if "city_rows city d \<noteq> []"
    using that rows by simp
  have ex: "\<exists>sn. snapshot_for (hd (map city_id (city_rows city ?D))) ev = Some sn \<and>
      snapshots_of city ?D =
        (if db_time ev \<in> set (map fetch_date (snapshots_of city d))
         then snapshots_of city d
         else snapshots_of city d @ [sn])"
    using sf snaps by blast
  from one upd newrow ex first wf' pers show ?thesis by blast
qed

theorem loaded_city_one_row_and_snapshot_witness:
  "wf_db empty_db \<and> loads (ev_ok 1) \<and>
   fst (fetch_and_load_weather [(''Nairobi,Kenya'', ev_ok 1)] empty_db) = Normal \<and>
   fst (fetch_and_load_weather
     ([(''Nairobi,Kenya'', ev_ok 1)] @ (''London,UK'', ev_ok 1) #
        [(''Paris,France'', ev_request_raises)]) empty_db) = Raised RequestException \<and>
   length (city_rows ''London,UK'' (fst (snd (fetch_and_load_weather
     ([(''Nairobi,Kenya'', ev_ok 1)] @ (''London,UK'', ev_ok 1) #
        [(''Paris,France'', ev_request_raises)]) empty_db)))) = 1 \<and>
   length (snapshots_of ''London,UK'' (fst (snd (fetch_and_load_weather
     ([(''Nairobi,Kenya'', ev_ok 1)] @ (''London,UK'', ev_ok 1) #
        [(''Paris,France'', ev_request_raises)]) empty_db)))) = 1 \<and>
   city_rows ''London,UK'' (fst (snd (fetch_and_load_weather sample_script empty_db))) \<noteq> [] \<and>
   city_rows ''London,UK''
     (fst (snd (fetch_and_load_weather ([] @ (''London,UK'', ev_ok 1) # [])
        (fst (snd (fetch_and_load_weather sample_script empty_db)))))) =
     map (\<lambda>r. r\<lparr>country_name := country_of ''London,UK''\<rparr>)
       (city_rows ''London,UK'' (fst (snd (fetch_and_load_weather sample_script empty_db)))) \<and>
   snapshots_of ''London,UK''
     (fst (snd (fetch_and_load_weather ([] @ (''London,UK'', ev_ok 1) # [])
        (fst (snd (fetch_and_load_weather sample_script empty_db)))))) =
     snapshots_of ''London,UK'' (fst (snd (fetch_and_load_weather sample_script empty_db)))"
proof -
  let ?pre = "[(''Nairobi,Kenya'', ev_ok 1)]"
  let ?post = "[(''Paris,France'', ev_request_raises)]"
  let ?d1 = "fst (snd (fetch_and_load_weather sample_script empty_db))"
  have p1: "''London,UK'' \<notin> fst ` set ?pre" and p2: "''London,UK'' \<notin> fst ` set ?post"
    by simp_all
  have r1: "fst (fetch_and_load_weather ?pre empty_db) = Normal"
    by (simp add: eval_defs)
  have ab: "fst (fetch_and_load_weather (?pre @ (''London,UK'', ev_ok 1) # ?post) empty_db)
      = Raised RequestException"
    by (simp add: sample_defs eval_defs)
  have new: "city_rows ''London,UK'' empty_db = []"
    by (simp add: city_rows_def empty_db_def)
  note first = loaded_city_one_row_and_snapshot [OF wf_empty_db p1 p2 r1 ev_ok_loads [of 1]]
  have q1: "''London,UK'' \<notin> fst ` set ([] :: (string \<times> city_events) list)" by simp
  have r2: "fst (fetch_and_load_weather [] ?d1) = Normal"
    by (simp add: fetch_and_load_weather_def)
  have sp: "sample_script = [] @ (''Nairobi,Kenya'', ev_ok 1) # [(''London,UK'', ev_ok 1)]"
    by (simp add: sample_script_def)
  have n1: "''Nairobi,Kenya'' \<notin> fst ` set ([] :: (string \<times> city_events) list)"
    and n2: "''Nairobi,Kenya'' \<notin> fst ` set [(''London,UK'', ev_ok 1)]"
    and r0: "fst (fetch_and_load_weather [] empty_db) = Normal"
    by (simp_all add: fetch_and_load_weather_def)
  have wf1: "wf_db ?d1"
    unfolding sp
    using loaded_city_one_row_and_snapshot [OF wf_empty_db n1 n2 r0 ev_ok_loads [of 1]] by blast
  note again = loaded_city_one_row_and_snapshot [OF wf1 q1 q1 r2 ev_ok_loads [of 1]]
  have known: "city_rows ''London,UK'' ?d1 \<noteq> []"
    by (simp add: city_rows_def eval_defs)
  have taken: "db_time (ev_ok 1) \<in> set (map fetch_date (snapshots_of ''London,UK'' ?d1))"
    by (simp add: city_rows_def snapshots_of_def eval_defs)
  from first new have a: "length (city_rows ''London,UK'' (fst (snd (fetch_and_load_weather
     (?pre @ (''London,UK'', ev_ok 1) # ?post) empty_db)))) = 1"
    and b: "length (snapshots_of ''London,UK'' (fst (snd (fetch_and_load_weather
     (?pre @ (''London,UK'', ev_ok 1) # ?post) empty_db)))) = 1"
    by blast+
  from again known have c: "city_rows ''London,UK''
     (fst (snd (fetch_and_load_weather ([] @ (''London,UK'', ev_ok 1) # []) ?d1))) =
     map (\<lambda>r. r\<lparr>country_name := country_of ''London,UK''\<rparr>) (city_rows ''London,UK'' ?d1)"
    by blast
  from again obtain sn where "snapshots_of ''London,UK''
     (fst (snd (fetch_and_load_weather ([] @ (''London,UK'', ev_ok 1) # []) ?d1))) =
     (if db_time (ev_ok 1) \<in> set (map fetch_date (snapshots_of ''London,UK'' ?d1))
      then snapshots_of ''London,UK'' ?d1
      else snapshots_of ''London,UK'' ?d1 @ [sn])"
    by blast
  with taken have d: "snapshots_of ''London,UK''
     (fst (snd (fetch_and_load_weather ([] @ (''London,UK'', ev_ok 1) # []) ?d1))) =
     snapshots_of ''London,UK'' ?d1"
    by (simp only: if_True)
  from wf_empty_db ev_ok_loads [of 1] r1 ab a b known c d show ?thesis by blast
qed

text \<open>
  Claim C4. A database error can end the run: the handler calls \<open>conn.rollback()\<close>
  unguarded, and when the connection is lost that call raises in its turn. The exception
  leaves the loop, nothing is logged, and the next city is never processed.
\<close>

theorem failed_rollback_ends_run:
  "db_error ev_connection_lost \<and>
   fetch_and_load_weather
     [(''Paris,France'', ev_connection_lost), (''London,UK'', ev_ok 3)] empty_db =
     (Raised DatabaseError, empty_db, [])"
  by (simp add: db_error_def geocoded_def weather_ok_def sample_defs eval_defs)

text \<open>
  Claim C4, as it holds. When a database error occurs in a city's iteration (the upsert
  raises, or the insert or the commit raises after a good fetch) and the rollback of the
  handler succeeds, the iteration rolls the open transaction back to the committed
  tables, logs the error and ends normally, so that the loop goes on with the next city
  from the rolled-back connection; the sequence of city identifiers is not rolled back.
  What was committed before stays committed to the end of the run; and a later city of
  the run that loads, named by no other iteration after the failing one and reached by
  the loop, ends the run with exactly one city row and a snapshot.
\<close>

theorem db_error_rolls_back_and_continues:
  assumes err: "db_error ev" and rb: "\<not> rollback_fails ev"
  shows "per_city city ev s =
           (Normal, rolled_back city (if upsert_fails ev then s else after_upsert city s)) \<and>
         committed (snd (per_city city ev s)) = committed s \<and>
         working (snd (per_city city ev s)) = committed s \<and>
         log (snd (per_city city ev s)) = log s @ [ErrorSkipping city] \<and>
         weather_loop ((city, ev) # rest) s =
           weather_loop rest
             (rolled_back city (if upsert_fails ev then s else after_upsert city s)) \<and>
         (persists (committed s) (working s) \<longrightarrow>
            persists (committed s) (committed (snd (weather_loop ((city, ev) # rest) s)))) \<and>
         (conn_wf s \<and> rest = pre @ (c, e) # post \<and> c \<notin> fst ` set pre \<and> c \<notin> fst ` set post \<and>
          loads e \<and>
          fst (weather_loop pre
                 (rolled_back city (if upsert_fails ev then s else after_upsert city s))) = Normal
          \<longrightarrow>
            length (city_rows c (committed (snd (weather_loop ((city, ev) # rest) s)))) = 1 \<and>
            snapshots_of c (committed (snd (weather_loop ((city, ev) # rest) s))) \<noteq> [])"
proof -
  let ?t = "rolled_back city (if upsert_fails ev then s else after_upsert city s)"
  have p: "per_city city ev s = (Normal, ?t)"
    using err rb by (rule per_city_db_error)
  have 1: "committed (snd (per_city city ev s)) = committed s"
    and 2: "working (snd (per_city city ev s)) = committed s"
    and 3: "log (snd (per_city city ev s)) = log s @ [ErrorSkipping city]"
    unfolding p by simp_all
  have 4: "weather_loop ((city, ev) # rest) s = weather_loop rest ?t"
    using p by simp
  have 5: "persists (committed s) (committed (snd (weather_loop ((city, ev) # rest) s)))"
    if "persists (committed s) (working s)"
    using persists_loop [OF that] by blast
  have 6: "length (city_rows c (committed (snd (weather_loop ((city, ev) # rest) s)))) = 1 \<and>
      snapshots_of c (committed (snd (weather_loop ((city, ev) # rest) s))) \<noteq> []"
    if wf: "conn_wf s" and r: "rest = pre @ (c, e) # post"
      and pre: "c \<notin> fst ` set pre" and post: "c \<notin> fst ` set post" and lo: "loads e"
      and reach: "fst (weather_loop pre ?t) = Normal"
  proof -
    have "conn_wf ?t"
      using wf by (simp add: conn_wf_rolled_back conn_wf_upsert)
    moreover have "working ?t = committed ?t" by simp
    ultimately have fin: "length (city_rows c (committed (snd (weather_loop (pre @ (c, e) # post) ?t)))) = 1 \<and>
        snapshots_of c (committed (snd (weather_loop (pre @ (c, e) # post) ?t))) \<noteq> []"
      using pre post reach lo by (rule later_city_still_loads)
    have eq: "weather_loop ((city, ev) # pre @ (c, e) # post) s =
        weather_loop (pre @ (c, e) # post) ?t"
      using 4 unfolding r .
    show ?thesis
      unfolding r eq by (rule fin)
  qed
  from p 1 2 3 4 5 6 show ?thesis by blast
qed

theorem db_error_rolls_back_and_continues_witness:
  "db_error ev_insert_fails \<and> \<not> rollback_fails ev_insert_fails \<and> loads (ev_ok 3) \<and>
   conn_wf (connect empty_db) \<and> persists empty_db empty_db \<and>
   weather_loop [(''Paris,France'', ev_insert_fails), (''London,UK'', ev_ok 3)]
       (connect empty_db) =
     weather_loop [(''London,UK'', ev_ok 3)]
       (rolled_back ''Paris,France'' (after_upsert ''Paris,France'' (connect empty_db))) \<and>
   length (city_rows ''London,UK'' (committed (snd (weather_loop
       [(''Paris,France'', ev_insert_fails), (''London,UK'', ev_ok 3)] (connect empty_db))))) = 1 \<and>
   map city_id (dim_city (committed (snd (weather_loop
       [(''Paris,France'', ev_insert_fails), (''London,UK'', ev_ok 3)] (connect empty_db))))) = [2]"
proof -
  have h: "db_error ev_insert_fails" and r: "\<not> rollback_fails ev_insert_fails"
    and u: "\<not> upsert_fails ev_insert_fails"
    by (simp_all add: db_error_def geocoded_def weather_ok_def sample_defs eval_defs)
  have wf: "conn_wf (connect empty_db)"
    using wf_empty_db by (rule conn_wf_connect)
  note t = db_error_rolls_back_and_continues [OF h r, where city = "''Paris,France''"
      and s = "connect empty_db" and rest = "[(''London,UK'', ev_ok 3)]"
      and pre = "[]" and c = "''London,UK''" and e = "ev_ok 3" and post = "[]"]
  have a: "weather_loop [(''Paris,France'', ev_insert_fails), (''London,UK'', ev_ok 3)]
       (connect empty_db) =
     weather_loop [(''London,UK'', ev_ok 3)]
       (rolled_back ''Paris,France'' (after_upsert ''Paris,France'' (connect empty_db)))"
    using t u by (simp del: weather_loop.simps)
  have b: "length (city_rows ''London,UK'' (committed (snd (weather_loop
       [(''Paris,France'', ev_insert_fails), (''London,UK'', ev_ok 3)] (connect empty_db))))) = 1"
  proof -
    have "conn_wf (connect empty_db) \<and>
        [(''London,UK'', ev_ok 3)] = [] @ (''London,UK'', ev_ok 3) # [] \<and>
        ''London,UK'' \<notin> fst ` set [] \<and> ''London,UK'' \<notin> fst ` set [] \<and> loads (ev_ok 3) \<and>
        fst (weather_loop [] (rolled_back ''Paris,France''
          (if upsert_fails ev_insert_fails then connect empty_db
           else after_upsert ''Paris,France'' (connect empty_db)))) = Normal"
      using wf ev_ok_loads [of 3] by simp
    with t show ?thesis by blast
  qed
  have c: "map city_id (dim_city (committed (snd (weather_loop
       [(''Paris,France'', ev_insert_fails), (''London,UK'', ev_ok 3)] (connect empty_db))))) = [2]"
    by (simp add: sample_defs eval_defs)
  from h r wf a b c ev_ok_loads [of 3] show ?thesis by simp
qed

text \<open>
  Claim C5. When the geocoding request raises, or the response is not a 200, or its
  body is an empty array, or reading the body raises, \<open>fetch_coordinates\<close> returns
  \<open>(None, None)\<close>; the iteration then changes neither the committed tables nor the
  open transaction, and the loop goes on with the next city.
\<close>

theorem geocoding_failure_skips_city:
  assumes "geo ev = GeoRaises \<or>
     (\<exists>status body. geo ev = GeoResponse status body \<and>
        (status \<noteq> 200 \<or> body = JsonArray [] \<or> (\<exists>e. parse_geo body = Inl e)))"
  shows "fst (fetch_coordinates city (geo ev)) = (None, None) \<and>
         per_city city ev s =
           (Normal, s\<lparr>log := log s @ snd (fetch_coordinates city (geo ev))\<rparr>) \<and>
         committed (snd (per_city city ev s)) = committed s \<and>
         working (snd (per_city city ev s)) = working s \<and>
         weather_loop ((city, ev) # rest) s =
           weather_loop rest (s\<lparr>log := log s @ snd (fetch_coordinates city (geo ev))\<rparr>)"
proof -
  have none: "fst (fetch_coordinates city' (geo ev)) = (None, None)" for city'
    using assms by (auto simp: fetch_coordinates_def)
  then have "\<not> geocoded ev"
    by (simp add: geocoded_def truthy_def)
  then have p: "per_city city ev s =
      (Normal, s\<lparr>log := log s @ snd (fetch_coordinates city (geo ev))\<rparr>)"
    by (rule per_city_skip)
  with none show ?thesis by simp
qed

theorem geocoding_failure_skips_city_witness:
  "fst (fetch_coordinates ''Thika,Kenya'' (GeoResponse 404 InvalidJson)) = (None, None) \<and>
   per_city ''Thika,Kenya'' ((ev_ok 1)\<lparr>geo := GeoResponse 404 InvalidJson\<rparr>) (connect empty_db) =
     (Normal, connect empty_db) \<and>
   per_city ''Thika,Kenya'' ((ev_ok 1)\<lparr>geo := GeoRaises\<rparr>) (connect empty_db) =
     (Normal, (connect empty_db)\<lparr>log := [GeocodingWarning ''Thika,Kenya'']\<rparr>)"
  using geocoding_failure_skips_city [of "(ev_ok 1)\<lparr>geo := GeoResponse 404 InvalidJson\<rparr>"
      "''Thika,Kenya''" "connect empty_db" "[]"]
    geocoding_failure_skips_city [of "(ev_ok 1)\<lparr>geo := GeoRaises\<rparr>"
      "''Thika,Kenya''" "connect empty_db" "[]"]
  by (simp add: fetch_coordinates_def connect_def)

text \<open>
  Claim C7. If every snapshot has its parent city row in the committed tables and in
  the open transaction's view, the same holds after any run of the loop, however it ends,
  and for the warehouse \<open>fetch_and_load_weather\<close> leaves. A snapshot that an iteration
  adds carries the identifier returned by that iteration's own upsert, which is the
  identifier of the row of that city.
\<close>

theorem snapshot_has_parent_city:
  "(parent_exists (committed s) \<and> parent_exists (working s) \<longrightarrow>
      parent_exists (committed (snd (weather_loop script s))) \<and>
      parent_exists (working (snd (weather_loop script s)))) \<and>
   (parent_exists d \<longrightarrow> parent_exists (fst (snd (fetch_and_load_weather script d)))) \<and>
   (\<forall>sn \<in> set (fact_weather_snapshot (working (snd (per_city city ev s)))).
      sn \<notin> set (fact_weather_snapshot (working s)) \<longrightarrow>
      sn \<notin> set (fact_weather_snapshot (committed s)) \<longrightarrow>
      snap_city_id sn = upsert_id city s \<and>
      (upsert_id city s, city) \<in> set (map (\<lambda>r. (city_id r, city_name r))
            (dim_city (working (snd (per_city city ev s))))))"
  by (intro conjI parent_exists_loop_imp parent_exists_warehouse new_snapshots_have_parent)

theorem snapshot_has_parent_city_witness:
  "parent_exists empty_db \<and>
   parent_exists (fst (snd (fetch_and_load_weather sample_script empty_db))) \<and>
   fact_weather_snapshot (fst (snd (fetch_and_load_weather sample_script empty_db))) \<noteq> []"
proof -
  have h: "parent_exists empty_db" by (simp add: parent_exists_def empty_db_def)
  have n: "fact_weather_snapshot (fst (snd (fetch_and_load_weather sample_script empty_db))) \<noteq> []"
    by (simp add: eval_defs)
  from snapshot_has_parent_city [where d = empty_db and script = sample_script
      and s = "connect empty_db" and city = "''London,UK''" and ev = "ev_ok 1"] h n
  show ?thesis by blast
qed

text \<open>
  Claim C8. When the query returns no row, \<open>fetch_data\<close> raises \<open>ValueError\<close>, and
  \<open>generate_report\<close> ends with that error having written no file, whatever the later
  steps would have done.
\<close>

theorem report_empty_result_raises:
  "fetch_data (QueryRows []) = Inl ValueError \<and>
   generate_report (QueryRows []) ev = (Raised ValueError, [])"
  by (simp add: generate_report_def fetch_data_def)

text \<open>
  Claim C9. When geocoding succeeds with a latitude or a longitude that is exactly zero,
  \<open>fetch_coordinates\<close> returns the pair, and the iteration does what it does for an
  empty result: it leaves the connection as it was, and the loop goes on.
\<close>

theorem zero_coordinate_skips_city:
  assumes "geo ev = GeoResponse 200 (JsonArray (GeoObject (Numeric lat) (Numeric lon) # others))"
    and "lat = Finite 0 \<or> lon = Finite 0"
  shows "fetch_coordinates city (geo ev) = ((Some lat, Some lon), []) \<and>
         per_city city ev s = (Normal, s) \<and>
         per_city city ev s = per_city city (ev\<lparr>geo := GeoResponse 200 (JsonArray [])\<rparr>) s \<and>
         weather_loop ((city, ev) # rest) s = weather_loop rest s"
proof -
  have fc: "fetch_coordinates city' (geo ev) = ((Some lat, Some lon), [])" for city'
    using assms(1) by (simp add: fetch_coordinates_def)
  have "\<not> geocoded ev"
    using assms(2) by (auto simp: geocoded_def fc truthy_def)
  then have p: "per_city city ev s = (Normal, s)"
    by (simp add: per_city_skip fc)
  have "\<not> geocoded (ev\<lparr>geo := GeoResponse 200 (JsonArray [])\<rparr>)"
    by (simp add: geocoded_def fetch_coordinates_def truthy_def)
  then have "per_city city (ev\<lparr>geo := GeoResponse 200 (JsonArray [])\<rparr>) s = (Normal, s)"
    by (simp add: per_city_skip fetch_coordinates_def)
  with p fc show ?thesis by simp
qed

theorem zero_coordinate_skips_city_witness:
  "fetch_coordinates ''Kisumu,Kenya''
      (GeoResponse 200 (JsonArray [GeoObject (Numeric (Finite 0)) (Numeric (Finite 34))])) =
     ((Some (Finite 0), Some (Finite 34)), []) \<and>
   per_city ''Kisumu,Kenya''
      ((ev_ok 1)\<lparr>geo := GeoResponse 200
          (JsonArray [GeoObject (Numeric (Finite 0)) (Numeric (Finite 34))])\<rparr>)
      (connect empty_db) = (Normal, connect empty_db)"
  using zero_coordinate_skips_city [of
      "(ev_ok 1)\<lparr>geo := GeoResponse 200
          (JsonArray [GeoObject (Numeric (Finite 0)) (Numeric (Finite 34))])\<rparr>"
      "Finite 0" "Finite 34" "[]" "''Kisumu,Kenya''" "connect empty_db" "[]"]
  by simp

text \<open>
  Claim C10. When the city is geocoded, the upsert succeeds and the weather response is
  not a 200, the iteration ends normally with the upsert pending: the committed tables
  are unchanged and the open transaction holds the city's row. A later iteration that
  loads its city commits that row with its own; a later iteration with a database error
  commits nothing and, when its rollback succeeds, rolls the pending row back; and if no
  later iteration commits, the committed tables stay as they were and the warehouse after
  the run is the warehouse before it.
\<close>

theorem non200_upsert_stays_pending:
  assumes "geocoded ev" and "\<not> upsert_fails ev"
    and "weather ev = WeatherResponse status body" and "status \<noteq> 200"
  shows "per_city city ev s = (Normal, after_upsert city s) \<and>
         committed (after_upsert city s) = committed s \<and>
         city \<in> set (map city_name (dim_city (working (after_upsert city s)))) \<and>
         (loads later_ev \<longrightarrow>
            city \<in> set (map city_name
              (dim_city (committed (snd (per_city later_city later_ev (after_upsert city s))))))) \<and>
         (db_error later_ev \<longrightarrow>
            committed (snd (per_city later_city later_ev (after_upsert city s))) = committed s \<and>
            (\<not> rollback_fails later_ev \<longrightarrow>
               working (snd (per_city later_city later_ev (after_upsert city s))) = committed s)) \<and>
         ((\<forall>x \<in> set rest. \<not> loads (snd x)) \<longrightarrow>
            committed (snd (weather_loop rest (after_upsert city s))) = committed s \<and>
            fst (snd (fetch_and_load_weather ((city, ev) # rest) d)) = d)"
proof (intro conjI impI)
  show p: "per_city city ev s = (Normal, after_upsert city s)" for s
    using assms by (simp add: per_city_geocoded)
  show "committed (after_upsert city s) = committed s" by simp
  show "city \<in> set (map city_name (dim_city (working (after_upsert city s))))"
    by (rule pending_row)
  show "city \<in> set (map city_name
      (dim_city (committed (snd (per_city later_city later_ev (after_upsert city s))))))" if "loads later_ev"
    using that by (rule pending_made_durable)
  show "committed (snd (per_city later_city later_ev (after_upsert city s))) = committed s"
    if "db_error later_ev"
  proof -
    from that have "\<not> loads later_ev" by (auto simp: db_error_def loads_def db_ok_def)
    then show ?thesis
      using per_city_not_loads [of later_ev later_city "after_upsert city s"] by simp
  qed
  show "working (snd (per_city later_city later_ev (after_upsert city s))) = committed s"
    if "db_error later_ev" and "\<not> rollback_fails later_ev"
    using per_city_db_error [OF that, of later_city "after_upsert city s"] by simp
  show "committed (snd (weather_loop rest (after_upsert city s))) = committed s"
    if "\<forall>x \<in> set rest. \<not> loads (snd x)"
    using no_commit_loop [OF that, of "after_upsert city s"] by simp
  show "fst (snd (fetch_and_load_weather ((city, ev) # rest) d)) = d"
    if "\<forall>x \<in> set rest. \<not> loads (snd x)"
    using no_commit_loop [OF that, of "after_upsert city (connect d)"]
    by (simp add: fetch_and_load_weather_committed p)
qed

theorem non200_upsert_stays_pending_witness:
  "geocoded ev_503 \<and> \<not> upsert_fails ev_503 \<and> loads (ev_ok 2) \<and>
   db_error ((ev_ok 2)\<lparr>upsert_fails := True\<rparr>) \<and>
   \<not> rollback_fails ((ev_ok 2)\<lparr>upsert_fails := True\<rparr>) \<and>
   per_city ''London,UK'' ev_503 (connect empty_db) =
     (Normal, after_upsert ''London,UK'' (connect empty_db)) \<and>
   ''London,UK'' \<in> set (map city_name (dim_city (committed (snd
       (per_city ''Paris,France'' (ev_ok 2) (after_upsert ''London,UK'' (connect empty_db))))))) \<and>
   committed (snd (per_city ''Paris,France'' ((ev_ok 2)\<lparr>upsert_fails := True\<rparr>)
       (after_upsert ''London,UK'' (connect empty_db)))) = empty_db \<and>
   working (snd (per_city ''Paris,France'' ((ev_ok 2)\<lparr>upsert_fails := True\<rparr>)
       (after_upsert ''London,UK'' (connect empty_db)))) = empty_db \<and>
   fst (snd (fetch_and_load_weather [(''London,UK'', ev_503)] empty_db)) = empty_db"
proof -
  have g: "geocoded ev_503" and u: "\<not> upsert_fails ev_503"
    and w: "weather ev_503 = WeatherResponse 503 WInvalidJson"
    by (simp_all add: ev_503_def geocoded_def eval_defs)
  have n: "(503::int) \<noteq> 200" by simp
  have e: "db_error ((ev_ok 2)\<lparr>upsert_fails := True\<rparr>)"
    and r: "\<not> rollback_fails ((ev_ok 2)\<lparr>upsert_fails := True\<rparr>)"
    by (simp_all add: db_error_def geocoded_def eval_defs)
  note t1 = non200_upsert_stays_pending [OF g u w n, where city = "''London,UK''"
      and s = "connect empty_db" and later_ev = "ev_ok 2" and later_city = "''Paris,France''"
      and rest = "[]" and d = empty_db]
  note t2 = non200_upsert_stays_pending [OF g u w n, where city = "''London,UK''"
      and s = "connect empty_db" and later_ev = "(ev_ok 2)\<lparr>upsert_fails := True\<rparr>"
      and later_city = "''Paris,France''" and rest = "[]" and d = empty_db]
  from t1 t2 g u e r ev_ok_loads [of 2] show ?thesis by simp
qed

text \<open>
  Claim C1, at an input where the code departs from it. Nairobi is geocoded and its
  weather response is a 200 that lacks \<open>current\<close>, or one whose \<open>current\<close> lacks
  \<open>wind_speed_10m\<close>: the subscript raises \<open>KeyError\<close>, which \<open>except psycopg2.Error\<close>
  does not catch. The function ends with that exception, Mombasa is never processed and
  the warehouse stays empty. The geocoding step, given a result without \<open>lat\<close>, does
  what the claim says: the run ends normally.
\<close>

theorem missing_weather_fields_abort_batch:
  "fetch_and_load_weather
     [(''Nairobi,Kenya'', (ev_ok 1)\<lparr>weather := WeatherResponse 200 WNoCurrent\<rparr>),
      (''Mombasa,Kenya'', ev_ok 2)] empty_db = (Raised KeyError, empty_db, []) \<and>
   fetch_and_load_weather
     [(''Nairobi,Kenya'', (ev_ok 1)\<lparr>weather := WeatherResponse 200
         (WCurrent (sample_current\<lparr>wind_speed_10m := None\<rparr>))\<rparr>),
      (''Mombasa,Kenya'', ev_ok 2)] empty_db = (Raised KeyError, empty_db, []) \<and>
   fst (fetch_and_load_weather
     [(''Nairobi,Kenya'', (ev_ok 1)\<lparr>geo := GeoResponse 200 (JsonArray [GeoObject Absent Absent])\<rparr>),
      (''Mombasa,Kenya'', ev_ok 2)] empty_db) = Normal"
  by (simp add: eval_defs)

text \<open>
  Claim C6, at an input where the code departs from it. On a CSV of six rows that is not
  sorted by score the loader executes six statements and commits once, and prints under
  \<open>Top 5 happiest:\<close> the first five rows of the file: the row with the highest score,
  the sixth, is loaded and not printed.
\<close>

theorem top5_printed_is_first_five_rows:
  "result (load_happiness_data sample_csv None []) = Normal \<and>
   executed (load_happiness_data sample_csv None []) = 6 \<and>
   commits (load_happiness_data sample_csv None []) = 1 \<and>
   top5_printed (load_happiness_data sample_csv None []) =
     [(''Lesotho'', 3.186), (''Kenya'', 4.470), (''Brazil'', 6.272), (''Canada'', 6.900),
      (''Iceland'', 7.525)] \<and>
   (''Finland'', 7.741) \<in> set (map (\<lambda>r. (hp_country_name r, ladder_score r))
      (dim_country (load_happiness_data sample_csv None []))) \<and>
   (''Finland'', 7.741) \<notin> set (top5_printed (load_happiness_data sample_csv None []))"
  by (simp add: load_happiness_data_def sample_csv_def csv_def frame_row_def upsert_country_def)

section \<open>Further properties\<close>

text \<open>
  The happiness loader without a database error: one statement per row of the CSV, one
  commit, the table that the upserts build in file order, and the first five rows of the
  file printed.
\<close>

theorem happiness_loader_statements_and_commit:
  "result (load_happiness_data rows None tbl) = Normal \<and>
   executed (load_happiness_data rows None tbl) = length rows \<and>
   commits (load_happiness_data rows None tbl) = 1 \<and>
   dim_country (load_happiness_data rows None tbl) =
     foldl (\<lambda>t r. upsert_country r t) tbl (map frame_row rows) \<and>
   top5_printed (load_happiness_data rows None tbl) =
     map (\<lambda>c. (csv_country_name c, csv_ladder_score c)) (take 5 rows)"
  by (simp add: load_happiness_data_def execute_rows_no_fault take_map frame_row_def o_def)

text \<open>The configured cities are 44 different strings.\<close>

theorem configured_cities_distinct: "distinct CITIES \<and> length CITIES = 44"
  by (simp add: CITIES_def)

text \<open>
  When the upsert does not fail, a weather response that is not a 200 ends the iteration
  normally, commits nothing and inserts no snapshot: the snapshots of the open
  transaction are those it had. The loop goes on with the next city.
\<close>

theorem non200_inserts_no_snapshot:
  assumes "weather ev = WeatherResponse status body" and "status \<noteq> 200"
    and "\<not> upsert_fails ev"
  shows "fst (per_city city ev s) = Normal \<and>
         committed (snd (per_city city ev s)) = committed s \<and>
         fact_weather_snapshot (working (snd (per_city city ev s))) =
            fact_weather_snapshot (working s) \<and>
         weather_loop ((city, ev) # rest) s = weather_loop rest (snd (per_city city ev s))"
proof -
  have nl: "\<not> loads ev" using assms by (auto simp: loads_def weather_ok_def)
  have c: "committed (snd (per_city city ev s)) = committed s"
    using nl by (rule per_city_not_loads)
  have "fst (per_city city ev s) = Normal \<and>
      fact_weather_snapshot (working (snd (per_city city ev s))) =
            fact_weather_snapshot (working s)"
  proof (cases "geocoded ev")
    case False
    then show ?thesis by (simp add: per_city_skip)
  next
    case True
    then have "per_city city ev s = (Normal, after_upsert city s)"
      using assms by (simp add: per_city_geocoded)
    then show ?thesis by simp
  qed
  with c show ?thesis unfolding weather_loop_step by simp
qed

theorem non200_inserts_no_snapshot_witness:
  "fst (per_city ''London,UK'' ev_503 (connect empty_db)) = Normal \<and>
   fact_weather_snapshot (working (snd (per_city ''London,UK'' ev_503 (connect empty_db)))) = []"
proof -
  have w: "weather ev_503 = WeatherResponse 503 WInvalidJson" by (simp add: ev_503_def)
  have n: "(503::int) \<noteq> 200" by simp
  have u: "\<not> upsert_fails ev_503" by (simp add: ev_503_def eval_defs)
  from non200_inserts_no_snapshot [OF w n u, of "''London,UK''" "connect empty_db" "[]"]
  show ?thesis by (auto simp: empty_db_def)
qed

text \<open>
  An exception of the weather request, or of reading a 200 response, is no
  \<open>psycopg2.Error\<close>: it ends the loop at that city, with the city's upsert pending and
  the cities after it not processed.
\<close>

theorem uncaught_weather_exception_ends_loop:
  assumes "geocoded ev" and "\<not> upsert_fails ev"
    and "weather ev = WeatherRaises \<or>
         (\<exists>body e. weather ev = WeatherResponse 200 body \<and> weather_row 0 0 body = Inl e)"
  shows "\<exists>e. weather_loop ((city, ev) # rest) s = (Raised e, after_upsert city s)"
proof -
  from assms(3) show ?thesis
  proof
    assume "weather ev = WeatherRaises"
    then show ?thesis using assms(1,2) by (simp add: per_city_geocoded)
  next
    assume "\<exists>body e. weather ev = WeatherResponse 200 body \<and> weather_row 0 0 body = Inl e"
    then obtain body e where w: "weather ev = WeatherResponse 200 body"
      and r: "weather_row 0 0 body = Inl e" by blast
    from r have "weather_row (upsert_id city s) (db_time ev) body = Inl e"
      using weather_row_error by blast
    with w show ?thesis using assms(1,2) by (simp add: per_city_geocoded)
  qed
qed

theorem uncaught_weather_exception_ends_loop_witness:
  "geocoded ((ev_ok 1)\<lparr>weather := WeatherRaises\<rparr>) \<and>
   weather_loop [(''Nairobi,Kenya'', (ev_ok 1)\<lparr>weather := WeatherRaises\<rparr>),
       (''Mombasa,Kenya'', ev_ok 2)] (connect empty_db) =
     (Raised RequestException, after_upsert ''Nairobi,Kenya'' (connect empty_db))"
proof -
  have g: "geocoded ((ev_ok 1)\<lparr>weather := WeatherRaises\<rparr>)"
    by (simp add: geocoded_def eval_defs)
  have u: "\<not> upsert_fails ((ev_ok 1)\<lparr>weather := WeatherRaises\<rparr>)" by (simp add: ev_ok_def)
  have w: "weather ((ev_ok 1)\<lparr>weather := WeatherRaises\<rparr>) = WeatherRaises \<or>
     (\<exists>body e. weather ((ev_ok 1)\<lparr>weather := WeatherRaises\<rparr>) = WeatherResponse 200 body \<and>
        weather_row 0 0 body = Inl e)" by simp
  from uncaught_weather_exception_ends_loop [OF g u w, of "''Nairobi,Kenya''"
      "[(''Mombasa,Kenya'', ev_ok 2)]" "connect empty_db"]
  obtain e where e: "weather_loop [(''Nairobi,Kenya'', (ev_ok 1)\<lparr>weather := WeatherRaises\<rparr>),
       (''Mombasa,Kenya'', ev_ok 2)] (connect empty_db) =
     (Raised e, after_upsert ''Nairobi,Kenya'' (connect empty_db))" by blast
  moreover have "fst (weather_loop [(''Nairobi,Kenya'', (ev_ok 1)\<lparr>weather := WeatherRaises\<rparr>),
       (''Mombasa,Kenya'', ev_ok 2)] (connect empty_db)) = Raised RequestException"
    by (simp add: eval_defs)
  ultimately show ?thesis using g by simp
qed

text \<open>
  The country of a city string is what follows its last comma, stripped, and replaced by
  its alias when it has one.
\<close>

theorem country_alias:
  "country_of (name @ '',UK'') = ''United Kingdom'' \<and>
   country_of (name @ '',Kenya'') = ''Kenya'' \<and>
   country_of (name @ '', Turkey'') = ''Turkiye''"
proof -
  have a: "last (split_on CHR '','' (name @ CHR '','' # ''UK'')) = ''UK''"
    by (rule split_on_last) simp
  have b: "last (split_on CHR '','' (name @ CHR '','' # ''Kenya'')) = ''Kenya''"
    by (rule split_on_last) simp
  have c: "last (split_on CHR '','' (name @ CHR '','' # '' Turkey'')) = '' Turkey''"
    by (rule split_on_last) simp
  from a b c show ?thesis
    by (simp add: country_of_def strip_def COUNTRY_MAPPING_def is_space_def whitespace_def)
qed

text \<open>
  What \<open>str_nat\<close> writes is a string of decimal digits, and reading it gives the
  number back.
\<close>

theorem nat_of_digits_str_nat: "nat_of_digits (str_nat n) = n"
proof (induction n rule: str_nat.induct)
  case (1 n)
  show ?case
  proof (cases "n < 10")
    case True
    then show ?thesis
      by (subst str_nat.simps) (simp add: nat_of_digits_def digit_value_nth)
  next
    case False
    then have "nat_of_digits (str_nat n) = 10 * nat_of_digits (str_nat (n div 10)) + n mod 10"
      by (subst str_nat.simps) (simp add: nat_of_digits_def digit_value_nth)
    with False "1.IH" show ?thesis by simp
  qed
qed

theorem str_nat_digits: "set (str_nat n) \<subseteq> set ''0123456789''"
proof (induction n rule: str_nat.induct)
  case (1 n)
  have d: "''0123456789'' ! k \<in> set ''0123456789''" if "k < 10" for k
    using that nth_mem [of k "''0123456789''"] by simp
  show ?case
  proof (cases "n < 10")
    case True
    then show ?thesis using d [of n] by (subst str_nat.simps) simp
  next
    case False
    then show ?thesis using "1.IH" d [of "n mod 10"] by (subst str_nat.simps) simp
  qed
qed

end
